theory Spec2Isabelle
  imports
    Main
    "HOL-Library.Word"
    "HOL-Library.Char_ord"
    "HOL-Library.List_Lexorder"
begin

section \<open>Byte strings\<close>

text \<open>
  A \<^verbatim>\<open>std::string\<close> is a sequence of bytes: \<^typ>\<open>string\<close>, a list of 8-bit characters.
  \<^verbatim>\<open>s.empty()\<close> is \<open>s = []\<close>, \<^verbatim>\<open>s += t\<close> is \<open>s @ t\<close>, \<^verbatim>\<open>s.size()\<close> is \<open>length s\<close>.
  \<^verbatim>\<open>operator<\<close> on \<^verbatim>\<open>std::string\<close> compares bytewise as unsigned values, a proper
  prefix being smaller: the lexicographic order of lists over the order of characters
  by their code.
\<close>

definition CRLF :: string where
  "CRLF = [CHR 0x0D, CHR 0x0A]"

text \<open>\<^verbatim>\<open>std::to_string\<close> on an unsigned and on a signed integer: decimal digits, most
  significant first, no leading zero, a minus sign before a negative value.\<close>

definition digit_char :: "nat \<Rightarrow> char" where
  "digit_char d = ''0123456789'' ! d"

fun to_string_nat :: "nat \<Rightarrow> string" where
  "to_string_nat n =
     (if n < 10 then [digit_char n]
      else to_string_nat (n div 10) @ [digit_char (n mod 10)])"

declare to_string_nat.simps [simp del]

definition to_string_int :: "int \<Rightarrow> string" where
  "to_string_int i =
     (if i < 0 then CHR ''-'' # to_string_nat (nat (- i)) else to_string_nat (nat i))"

section \<open>HttpQueryParameter\<close>

record HttpQueryParameter =
  mParameter :: string

text \<open>The implicit default constructor: an empty accumulator.\<close>

definition HttpQueryParameter_ctor :: HttpQueryParameter where
  "HttpQueryParameter_ctor = \<lparr>mParameter = ''''\<rparr>"

text \<open>
  \<^verbatim>\<open>add\<close> takes its arguments as \<^verbatim>\<open>const std::string&\<close> and \<^verbatim>\<open>getResult\<close> returns a
  \<^verbatim>\<open>const std::string&\<close> to the accumulator. A reference argument therefore is bound either to
  a string of its own or to \<open>mParameter\<close> of the very object that \<^verbatim>\<open>add\<close> is called on (the
  class gives out no other reference); a reference is read when the statement that uses it
  runs, not when the call is made.
\<close>

datatype string_ref = Other_string string | Own_mParameter

fun deref :: "string_ref \<Rightarrow> HttpQueryParameter \<Rightarrow> string" where
  "deref (Other_string s) q = s"
| "deref Own_mParameter q = mParameter q"

definition HttpQueryParameter_add ::
  "string_ref \<Rightarrow> string_ref \<Rightarrow> HttpQueryParameter \<Rightarrow> HttpQueryParameter" where
  "HttpQueryParameter_add k v q =
     (let q = (if mParameter q \<noteq> [] then q\<lparr>mParameter := mParameter q @ ''&''\<rparr> else q);
          q = q\<lparr>mParameter := mParameter q @ deref k q\<rparr>;
          q = q\<lparr>mParameter := mParameter q @ ''=''\<rparr>;
          q = q\<lparr>mParameter := mParameter q @ deref v q\<rparr>
      in q)"

text \<open>\<^verbatim>\<open>getResult\<close> is the single statement \<^verbatim>\<open>return mParameter;\<close>: the call returns the
  reference and the object; \<open>HttpQueryParameter_getResult\<close> is the string read through it.\<close>

definition HttpQueryParameter_getResult_call ::
  "HttpQueryParameter \<Rightarrow> string_ref \<times> HttpQueryParameter" where
  "HttpQueryParameter_getResult_call q = (Own_mParameter, q)"

definition HttpQueryParameter_getResult :: "HttpQueryParameter \<Rightarrow> string" where
  "HttpQueryParameter_getResult q =
     (case HttpQueryParameter_getResult_call q of (r, q') \<Rightarrow> deref r q')"

text \<open>A sequence of calls \<^verbatim>\<open>add(k1, v1); ...; add(kn, vn)\<close>, in call order, and the strings
  the arguments of each call hold at the moment of the call.\<close>

definition HttpQueryParameter_calls ::
  "(string_ref \<times> string_ref) list \<Rightarrow> HttpQueryParameter \<Rightarrow> HttpQueryParameter" where
  "HttpQueryParameter_calls cs q = foldl (\<lambda>q (k, v). HttpQueryParameter_add k v q) q cs"

fun argument_values ::
  "(string_ref \<times> string_ref) list \<Rightarrow> HttpQueryParameter \<Rightarrow> (string \<times> string) list" where
  "argument_values [] q = []"
| "argument_values ((k, v) # cs) q =
     (deref k q, deref v q) # argument_values cs (HttpQueryParameter_add k v q)"

text \<open>Arguments that are strings of their own.\<close>

definition by_value :: "string \<times> string \<Rightarrow> string_ref \<times> string_ref" where
  "by_value kv = (Other_string (fst kv), Other_string (snd kv))"

text \<open>The specification's description of the result, written independently of the code:
  each pair as \<open>key=value\<close>, a single \<open>&\<close> between consecutive pairs and none before
  the first.\<close>

fun spec_query_string :: "(string \<times> string) list \<Rightarrow> string" where
  "spec_query_string [] = ''''"
| "spec_query_string [(k, v)] = k @ ''='' @ v"
| "spec_query_string ((k, v) # kv # kvs) = k @ ''='' @ v @ ''&'' @ spec_query_string (kv # kvs)"

section \<open>The header container\<close>

text \<open>
  \<^verbatim>\<open>std::map<std::string, std::string>\<close> keeps one entry per key and is iterated in
  ascending key order. It is modelled by the list of its entries in iteration order, strictly
  ascending by key. \<^verbatim>\<open>m[k] = v\<close> overwrites the value of an entry with an equivalent key
  (neither key smaller than the other) and otherwise inserts a new entry at its place in
  the order.
\<close>

fun assign_entry :: "string \<Rightarrow> string \<Rightarrow> (string \<times> string) list \<Rightarrow> (string \<times> string) list" where
  "assign_entry k v [] = [(k, v)]"
| "assign_entry k v ((k', v') # es) =
     (if k < k' then (k, v) # (k', v') # es
      else if k' < k then (k', v') # assign_entry k v es
      else (k', v) # es)"

typedef string_map = "{es :: (string \<times> string) list. sorted_wrt (<) (map fst es)}"
  morphisms entries Abs_string_map
  by (rule exI [of _ "[]"]) simp

setup_lifting type_definition_string_map

lift_definition map_empty :: string_map is "[]"
  by simp

lift_definition map_assign :: "string \<Rightarrow> string \<Rightarrow> string_map \<Rightarrow> string_map" is assign_entry
proof -
  fix k v :: string and es0 :: "(string \<times> string) list"
  have cases3: "k < k' \<or> (\<not> k < k' \<and> k' < k) \<or> (\<not> k < k' \<and> \<not> k' < k \<and> k = k')" for k'
    by auto
  have keys: "set (map fst (assign_entry k v es)) = insert k (set (map fst es))" for es
  proof (induction es)
    case Nil
    show ?case by simp
  next
    case (Cons e es)
    obtain k' v' where e: "e = (k', v')" by (cases e)
    from cases3 [of k'] Cons.IH show ?case
      by (elim disjE conjE) (simp_all add: e insert_commute)
  qed
  assume "sorted_wrt (<) (map fst es0)"
  then show "sorted_wrt (<) (map fst (assign_entry k v es0))"
  proof (induction es0)
    case Nil
    show ?case by simp
  next
    case (Cons e es)
    obtain k' v' where e: "e = (k', v')" by (cases e)
    from Cons.prems have tl: "sorted_wrt (<) (map fst es)"
      and hd: "\<forall>x \<in> set (map fst es). k' < x"
      by (simp_all add: e)
    from cases3 [of k'] show ?case
    proof (elim disjE conjE)
      assume lt: "k < k'"
      have "\<forall>x \<in> set (map fst es). k < x"
        using hd lt by (meson less_trans)
      with lt Cons.prems show ?thesis by (simp add: e)
    next
      assume gt: "\<not> k < k'" "k' < k"
      have "\<forall>x \<in> set (map fst (assign_entry k v es)). k' < x"
        using hd gt by (simp only: keys) blast
      with Cons.IH [OF tl] gt show ?thesis
        by (simp add: e)
    next
      assume "\<not> k < k'" "\<not> k' < k"
      with Cons.prems show ?thesis by (simp add: e)
    qed
  qed
qed

text \<open>A sequence of assignments \<^verbatim>\<open>m[k1] = v1; ...; m[kn] = vn\<close>, in that order.\<close>

definition map_assign_all :: "(string \<times> string) list \<Rightarrow> string_map \<Rightarrow> string_map" where
  "map_assign_all kvs m = foldl (\<lambda>m (k, v). map_assign k v m) m kvs"

text \<open>One header line as the serialisation loops emit it: field, colon, space, value, CRLF.\<close>

definition header_line :: "string \<times> string \<Rightarrow> string" where
  "header_line v = fst v @ '': '' @ snd v @ CRLF"

text \<open>The same line without the CR LF that ends it.\<close>

definition header_text :: "string \<times> string \<Rightarrow> string" where
  "header_text v = fst v @ '': '' @ snd v"

section \<open>Reading a serialised message\<close>

text \<open>
  The result of \<open>getResult\<close> is a byte string, and the lines of a message are read off that
  string: it is cut at every CR LF, scanning from the left. The first line is the start
  line; the header lines are the lines after it up to the first empty line; the body is
  everything after the CR LF that ends this empty line.
\<close>

fun has_CRLF :: "string \<Rightarrow> bool" where
  "has_CRLF (c # d # cs) = ((c = CHR 0x0D \<and> d = CHR 0x0A) \<or> has_CRLF (d # cs))"
| "has_CRLF [c] = False"
| "has_CRLF [] = False"

fun split_crlf :: "string \<Rightarrow> string list" where
  "split_crlf (c # d # cs) =
     (if c = CHR 0x0D \<and> d = CHR 0x0A then [] # split_crlf cs
      else (case split_crlf (d # cs) of [] \<Rightarrow> [[c]] | l # ls \<Rightarrow> (c # l) # ls))"
| "split_crlf [c] = [[c]]"
| "split_crlf [] = [[]]"

fun join_crlf :: "string list \<Rightarrow> string" where
  "join_crlf [] = []"
| "join_crlf [l] = l"
| "join_crlf (l # m # ls) = l @ CRLF @ join_crlf (m # ls)"

definition start_line_of :: "string \<Rightarrow> string" where
  "start_line_of out = (case split_crlf out of [] \<Rightarrow> [] | l # ls \<Rightarrow> l)"

definition header_lines_of :: "string \<Rightarrow> string list" where
  "header_lines_of out = takeWhile (\<lambda>l. l \<noteq> []) (tl (split_crlf out))"

definition body_of :: "string \<Rightarrow> string option" where
  "body_of out =
     (case dropWhile (\<lambda>l. l \<noteq> []) (tl (split_crlf out)) of
        [] \<Rightarrow> None
      | blank # ls \<Rightarrow> Some (join_crlf ls))"

text \<open>A header line for the field \<open>k\<close> reads \<open>k\<close>, a colon, a space, and a value.\<close>

definition line_is_for :: "string \<Rightarrow> string \<Rightarrow> bool" where
  "line_is_for k l \<longleftrightarrow> take (length k + 2) l = k @ '': ''"

text \<open>A decimal number as a reader of the output takes it: digits only, their value, and
  a Content-Length line with such a number.\<close>

definition is_digit :: "char \<Rightarrow> bool" where
  "is_digit c \<longleftrightarrow> c \<in> set ''0123456789''"

definition decimal_value :: "string \<Rightarrow> nat" where
  "decimal_value ds = foldl (\<lambda>a c. 10 * a + (of_char c - 48)) 0 ds"

definition is_Content_Length_line :: "string \<Rightarrow> bool" where
  "is_Content_Length_line l \<longleftrightarrow>
     take 16 l = ''Content-Length: '' \<and> drop 16 l \<noteq> [] \<and> list_all is_digit (drop 16 l)"

text \<open>The serialisers copy url, query, header fields and values into the output as they
  are. These are the conditions on them that the properties of the output lines need: no
  CR LF inside, and for a header field no colon either.\<close>

definition field_ok :: "string \<Rightarrow> bool" where
  "field_ok k \<longleftrightarrow> \<not> has_CRLF k \<and> CHR '':'' \<notin> set k"

definition entries_no_CRLF :: "string_map \<Rightarrow> bool" where
  "entries_no_CRLF m \<longleftrightarrow> list_all (\<lambda>e. \<not> has_CRLF (fst e) \<and> \<not> has_CRLF (snd e)) (entries m)"

definition entries_ok :: "string_map \<Rightarrow> bool" where
  "entries_ok m \<longleftrightarrow> list_all (\<lambda>e. field_ok (fst e) \<and> \<not> has_CRLF (snd e)) (entries m)"

text \<open>Two calls of a method one after the other, with nothing in between: the two
  results and the object after the second call.\<close>

definition twice :: "('o \<Rightarrow> 'r \<times> 'o) \<Rightarrow> 'o \<Rightarrow> 'r \<times> 'r \<times> 'o" where
  "twice call s = (case call s of (r1, s1) \<Rightarrow> (case call s1 of (r2, s2) \<Rightarrow> (r1, r2, s2)))"

text \<open>The frame of a call of \<open>getResult\<close>: the object the method is called on and the local
  variable \<^verbatim>\<open>ret\<close>. Every statement of the body is a step on the frame.\<close>

record 'o frame =
  this :: 'o
  local_ret :: string

section \<open>HttpRequest\<close>

datatype HTTP_METHOD =
    HTTP_METHOD_HEAD
  | HTTP_METHOD_GET
  | HTTP_METHOD_POST
  | HTTP_METHOD_PUT
  | HTTP_METHOD_DELETE
  | HTTP_METHOD_MAX

text \<open>The enumerators' values, by which \<^verbatim>\<open><\<close>, \<^verbatim>\<open>>\<close> and \<^verbatim>\<open>>=\<close> compare them and
  \<^verbatim>\<open>static_cast<size_t>\<close> indexes the table of names.\<close>

fun method_value :: "HTTP_METHOD \<Rightarrow> nat" where
  "method_value HTTP_METHOD_HEAD = 0"
| "method_value HTTP_METHOD_GET = 1"
| "method_value HTTP_METHOD_POST = 2"
| "method_value HTTP_METHOD_PUT = 3"
| "method_value HTTP_METHOD_DELETE = 4"
| "method_value HTTP_METHOD_MAX = 5"

record HttpRequest =
  mUrl :: string
  mQuery :: string
  mBody :: string
  mMethod :: HTTP_METHOD
  mHeadField :: string_map

text \<open>A failed \<^verbatim>\<open>assert\<close> aborts the program (builds without \<^verbatim>\<open>NDEBUG\<close>).\<close>

datatype error = AssertionFailed

text \<open>The condition asserted by \<^verbatim>\<open>setMethod\<close>, and \<^verbatim>\<open>setMethod\<close> itself: the assignment,
  then the assertion on the stored value.\<close>

definition setMethod_assertion :: "HTTP_METHOD \<Rightarrow> bool" where
  "setMethod_assertion m \<longleftrightarrow>
     method_value m > method_value HTTP_METHOD_HEAD \<and> method_value m < method_value HTTP_METHOD_MAX"

definition HttpRequest_setMethod :: "HTTP_METHOD \<Rightarrow> HttpRequest \<Rightarrow> error + HttpRequest" where
  "HttpRequest_setMethod protocol s =
     (let s = s\<lparr>mMethod := protocol\<rparr>
      in if setMethod_assertion (mMethod s) then Inr s else Inl AssertionFailed)"

text \<open>The constructor: the members are default-initialised (empty strings, empty map;
  \<open>mMethod\<close> has no initialiser and is passed as \<open>m0\<close>, whatever it holds), and the
  body calls \<^verbatim>\<open>setMethod(HTTP_METHOD_GET)\<close>, which overwrites it.\<close>

definition HttpRequest_ctor_from :: "HTTP_METHOD \<Rightarrow> error + HttpRequest" where
  "HttpRequest_ctor_from m0 =
     HttpRequest_setMethod HTTP_METHOD_GET
       \<lparr>mUrl = '''', mQuery = '''', mBody = '''', mMethod = m0, mHeadField = map_empty\<rparr>"

text \<open>The object a construction leaves: method GET, everything else empty.\<close>

definition HttpRequest_new :: HttpRequest where
  "HttpRequest_new =
     \<lparr>mUrl = '''', mQuery = '''', mBody = '''', mMethod = HTTP_METHOD_GET, mHeadField = map_empty\<rparr>"

definition HttpRequest_addHeadValue :: "string \<Rightarrow> string \<Rightarrow> HttpRequest \<Rightarrow> HttpRequest" where
  "HttpRequest_addHeadValue field val s = s\<lparr>mHeadField := map_assign field val (mHeadField s)\<rparr>"

definition HttpRequest_setHost :: "string \<Rightarrow> HttpRequest \<Rightarrow> HttpRequest" where
  "HttpRequest_setHost host s = HttpRequest_addHeadValue ''Host'' host s"

definition HttpRequest_setUrl :: "string \<Rightarrow> HttpRequest \<Rightarrow> HttpRequest" where
  "HttpRequest_setUrl url s = s\<lparr>mUrl := url\<rparr>"

definition HttpRequest_setCookie :: "string \<Rightarrow> HttpRequest \<Rightarrow> HttpRequest" where
  "HttpRequest_setCookie v s = HttpRequest_addHeadValue ''Cookie'' v s"

definition HttpRequest_setContentType :: "string \<Rightarrow> HttpRequest \<Rightarrow> HttpRequest" where
  "HttpRequest_setContentType v s = HttpRequest_addHeadValue ''Content-Type'' v s"

definition HttpRequest_setQuery :: "string \<Rightarrow> HttpRequest \<Rightarrow> HttpRequest" where
  "HttpRequest_setQuery query s = s\<lparr>mQuery := query\<rparr>"

text \<open>Both overloads of \<^verbatim>\<open>setBody\<close> (by reference and by rvalue) store the same bytes.\<close>

definition HttpRequest_setBody :: "string \<Rightarrow> HttpRequest \<Rightarrow> HttpRequest" where
  "HttpRequest_setBody body s =
     (let s = HttpRequest_addHeadValue ''Content-Length'' (to_string_nat (length body)) s
      in s\<lparr>mBody := body\<rparr>)"

definition HttpMethodString :: "string list" where
  "HttpMethodString = [''HEAD'', ''GET'', ''POST'', ''PUT'', ''DELETE'']"

definition HttpRequest_getResult :: "HttpRequest \<Rightarrow> string" where
  "HttpRequest_getResult s =
     (let ret = '''';
          ret = (if method_value (mMethod s) \<ge> method_value HTTP_METHOD_HEAD
                    \<and> method_value (mMethod s) < method_value HTTP_METHOD_MAX
                 then ret @ HttpMethodString ! method_value (mMethod s) else ret);
          ret = ret @ '' '';
          ret = ret @ mUrl s;
          ret = (if mQuery s \<noteq> [] then (ret @ ''?'') @ mQuery s else ret);
          ret = ret @ '' HTTP/1.1'' @ CRLF;
          ret = foldl (\<lambda>ret v. (((ret @ fst v) @ '': '') @ snd v) @ CRLF) ret
                  (entries (mHeadField s));
          ret = ret @ CRLF;
          ret = (if mBody s \<noteq> [] then ret @ mBody s else ret)
      in ret)"

text \<open>The parts of the request's result, to speak about them: the request line (all
  that \<^verbatim>\<open>getResult\<close> appends before its loop) and the header lines (what the iterations of
  the loop append, one line per entry of the map, in iteration order).\<close>

definition HttpRequest_request_line :: "HttpRequest \<Rightarrow> string" where
  "HttpRequest_request_line s =
     (if method_value (mMethod s) \<ge> method_value HTTP_METHOD_HEAD
         \<and> method_value (mMethod s) < method_value HTTP_METHOD_MAX
      then HttpMethodString ! method_value (mMethod s) else '''')
     @ '' '' @ mUrl s @ (if mQuery s \<noteq> [] then ''?'' @ mQuery s else '''')
     @ '' HTTP/1.1'' @ CRLF"

definition HttpRequest_header_lines :: "HttpRequest \<Rightarrow> string list" where
  "HttpRequest_header_lines s = map header_line (entries (mHeadField s))"

text \<open>The body of \<open>getResult\<close> statement by statement, on the frame of the call, and the
  call: \<open>ret\<close> starts empty, the body runs, the call gives back \<open>ret\<close> and the object.\<close>

definition HttpRequest_getResult_body :: "HttpRequest frame \<Rightarrow> HttpRequest frame" where
  "HttpRequest_getResult_body f =
     (let f = (if method_value (mMethod (this f)) \<ge> method_value HTTP_METHOD_HEAD
                  \<and> method_value (mMethod (this f)) < method_value HTTP_METHOD_MAX
               then f\<lparr>local_ret := local_ret f @ HttpMethodString ! method_value (mMethod (this f))\<rparr>
               else f);
          f = f\<lparr>local_ret := local_ret f @ '' ''\<rparr>;
          f = f\<lparr>local_ret := local_ret f @ mUrl (this f)\<rparr>;
          f = (if mQuery (this f) \<noteq> []
               then (let f = f\<lparr>local_ret := local_ret f @ ''?''\<rparr> in f\<lparr>local_ret := local_ret f @ mQuery (this f)\<rparr>)
               else f);
          f = f\<lparr>local_ret := local_ret f @ '' HTTP/1.1'' @ CRLF\<rparr>;
          f = foldl (\<lambda>f v. f\<lparr>local_ret := (((local_ret f @ fst v) @ '': '') @ snd v) @ CRLF\<rparr>) f
                (entries (mHeadField (this f)));
          f = f\<lparr>local_ret := local_ret f @ CRLF\<rparr>;
          f = (if mBody (this f) \<noteq> [] then f\<lparr>local_ret := local_ret f @ mBody (this f)\<rparr> else f)
      in f)"

definition HttpRequest_getResult_call :: "HttpRequest \<Rightarrow> string \<times> HttpRequest" where
  "HttpRequest_getResult_call s =
     (let f = HttpRequest_getResult_body \<lparr>this = s, local_ret = ''''\<rparr> in (local_ret f, this f))"

text \<open>Requests whose url, query and headers have no CR LF inside, and those whose header
  fields have no colon either.\<close>

definition HttpRequest_no_CRLF :: "HttpRequest \<Rightarrow> bool" where
  "HttpRequest_no_CRLF s \<longleftrightarrow>
     \<not> has_CRLF (mUrl s) \<and> \<not> has_CRLF (mQuery s) \<and> entries_no_CRLF (mHeadField s)"

definition HttpRequest_well_formed :: "HttpRequest \<Rightarrow> bool" where
  "HttpRequest_well_formed s \<longleftrightarrow>
     \<not> has_CRLF (mUrl s) \<and> \<not> has_CRLF (mQuery s) \<and> entries_ok (mHeadField s)"

text \<open>A sequence of calls \<^verbatim>\<open>addHeadValue(k1, v1); ...; addHeadValue(kn, vn)\<close>.\<close>

definition HttpRequest_addHeadValues :: "(string \<times> string) list \<Rightarrow> HttpRequest \<Rightarrow> HttpRequest" where
  "HttpRequest_addHeadValues kvs s = foldl (\<lambda>s (k, v). HttpRequest_addHeadValue k v s) s kvs"

section \<open>HttpResponse\<close>

text \<open>
  \<^verbatim>\<open>enum class status : unsigned\<close>: every value of the underlying type is a value of the
  enumeration, so a status is a 32-bit unsigned word. \<^verbatim>\<open>static_cast<int>\<close> reads the
  same 32 bits in two's complement (\<^verbatim>\<open>int\<close> and \<^verbatim>\<open>unsigned\<close> are 32 bits wide on the
  platforms the library builds for).
\<close>

type_synonym status = "32 word"

definition status_ok :: status where
  "status_ok = 200"

record HttpResponse =
  mStatus :: status
  rHeadField :: string_map
  rBody :: string

text \<open>The cases of the \<^verbatim>\<open>switch\<close> in \<^verbatim>\<open>toStatusString\<close>, in source order, each enumerator
  written as its value.\<close>

definition status_cases :: "(status \<times> string) list" where
  "status_cases = [
     (100, ''Continue''),
     (101, ''Switching Protocols''),
     (102, ''Processing''),
     (200, ''OK''),
     (201, ''Created''),
     (202, ''Accepted''),
     (203, ''Non-Authoritative Information''),
     (204, ''No Content''),
     (205, ''Reset Content''),
     (206, ''Partial Content''),
     (207, ''Multi-Status''),
     (208, ''Already Reported''),
     (226, ''IM Used''),
     (300, ''Multiple Choices''),
     (301, ''Moved Permanently''),
     (302, ''Found''),
     (303, ''See Other''),
     (304, ''Not Modified''),
     (305, ''Use Proxy''),
     (307, ''Temporary Redirect''),
     (308, ''Permanent Redirect''),
     (400, ''Bad Request''),
     (401, ''Unauthorized''),
     (402, ''Payment Required''),
     (403, ''Forbidden''),
     (404, ''Not Found''),
     (405, ''Method Not Allowed''),
     (406, ''Not Acceptable''),
     (407, ''Proxy Authentication Required''),
     (408, ''Request Timeout''),
     (409, ''Conflict''),
     (410, ''Gone''),
     (411, ''Length Required''),
     (412, ''Precondition Failed''),
     (413, ''Payload Too Large''),
     (414, ''URI Too Long''),
     (415, ''Unsupported Media Type''),
     (416, ''Range Not Satisfiable''),
     (417, ''Expectation Failed''),
     (421, ''Misdirected Request''),
     (422, ''Unprocessable Entity''),
     (423, ''Locked''),
     (424, ''Failed Dependency''),
     (426, ''Upgrade Required''),
     (428, ''Precondition Required''),
     (429, ''Too Many Requests''),
     (431, ''Request Header Fields Too Large''),
     (444, ''Connection Closed Without Response''),
     (451, ''Unavailable For Legal Reasons''),
     (499, ''Client Closed Request''),
     (500, ''Internal Server Error''),
     (501, ''Not Implemented''),
     (502, ''Bad Gateway''),
     (503, ''Service Unavailable''),
     (504, ''Gateway Timeout''),
     (505, ''HTTP Version Not Supported''),
     (506, ''Variant Also Negotiates''),
     (507, ''Insufficient Storage''),
     (508, ''Loop Detected''),
     (510, ''Not Extended''),
     (511, ''Network Authentication Required''),
     (599, ''Network Connect Timeout Error'')]"

definition toStatusString :: "HttpResponse \<Rightarrow> string" where
  "toStatusString s =
     (case map_of status_cases (mStatus s) of
        Some phrase \<Rightarrow> phrase
      | None \<Rightarrow> ''<unknown-status>'')"

definition HttpResponse_addHeadValue :: "string \<Rightarrow> string \<Rightarrow> HttpResponse \<Rightarrow> HttpResponse" where
  "HttpResponse_addHeadValue field val s = s\<lparr>rHeadField := map_assign field val (rHeadField s)\<rparr>"

definition HttpResponse_ctor :: "status \<Rightarrow> bool \<Rightarrow> HttpResponse" where
  "HttpResponse_ctor state isKeepAlive =
     (let s = \<lparr>mStatus = state, rHeadField = map_empty, rBody = ''''\<rparr>
      in if isKeepAlive then HttpResponse_addHeadValue ''Connection'' ''Keep-Alive'' s
         else HttpResponse_addHeadValue ''Connection'' ''Close'' s)"

definition HttpResponse_setStatus :: "status \<Rightarrow> HttpResponse \<Rightarrow> HttpResponse" where
  "HttpResponse_setStatus st s = s\<lparr>mStatus := st\<rparr>"

definition HttpResponse_setContentType :: "string \<Rightarrow> HttpResponse \<Rightarrow> HttpResponse" where
  "HttpResponse_setContentType v s = HttpResponse_addHeadValue ''Content-Type'' v s"

definition HttpResponse_setBody :: "string \<Rightarrow> HttpResponse \<Rightarrow> HttpResponse" where
  "HttpResponse_setBody body s =
     (let s = HttpResponse_addHeadValue ''Content-Length'' (to_string_nat (length body)) s
      in s\<lparr>rBody := body\<rparr>)"

definition HttpResponse_getResult :: "HttpResponse \<Rightarrow> string" where
  "HttpResponse_getResult s =
     (let ret = ''HTTP/1.1 '';
          ret = ret @ to_string_int (sint (mStatus s));
          ret = ret @ '' '';
          ret = ret @ toStatusString s;
          ret = ret @ CRLF;
          ret = foldl (\<lambda>ret v. (((ret @ fst v) @ '': '') @ snd v) @ CRLF) ret
                  (entries (rHeadField s));
          ret = ret @ CRLF;
          ret = (if rBody s \<noteq> [] then ret @ rBody s else ret)
      in ret)"

text \<open>The parts of the response's result: the status line and the header lines.\<close>

definition HttpResponse_status_line :: "HttpResponse \<Rightarrow> string" where
  "HttpResponse_status_line s =
     ''HTTP/1.1 '' @ to_string_int (sint (mStatus s)) @ '' '' @ toStatusString s @ CRLF"

definition HttpResponse_header_lines :: "HttpResponse \<Rightarrow> string list" where
  "HttpResponse_header_lines s = map header_line (entries (rHeadField s))"

definition HttpResponse_addHeadValues :: "(string \<times> string) list \<Rightarrow> HttpResponse \<Rightarrow> HttpResponse" where
  "HttpResponse_addHeadValues kvs s = foldl (\<lambda>s (k, v). HttpResponse_addHeadValue k v s) s kvs"

text \<open>The body of \<open>getResult\<close> statement by statement, on the frame of the call, and the
  call.\<close>

definition HttpResponse_getResult_body :: "HttpResponse frame \<Rightarrow> HttpResponse frame" where
  "HttpResponse_getResult_body f =
     (let f = f\<lparr>local_ret := ''HTTP/1.1 ''\<rparr>;
          f = f\<lparr>local_ret := local_ret f @ to_string_int (sint (mStatus (this f)))\<rparr>;
          f = f\<lparr>local_ret := local_ret f @ '' ''\<rparr>;
          f = f\<lparr>local_ret := local_ret f @ toStatusString (this f)\<rparr>;
          f = f\<lparr>local_ret := local_ret f @ CRLF\<rparr>;
          f = foldl (\<lambda>f v. f\<lparr>local_ret := (((local_ret f @ fst v) @ '': '') @ snd v) @ CRLF\<rparr>) f
                (entries (rHeadField (this f)));
          f = f\<lparr>local_ret := local_ret f @ CRLF\<rparr>;
          f = (if rBody (this f) \<noteq> [] then f\<lparr>local_ret := local_ret f @ rBody (this f)\<rparr> else f)
      in f)"

definition HttpResponse_getResult_call :: "HttpResponse \<Rightarrow> string \<times> HttpResponse" where
  "HttpResponse_getResult_call s =
     (let f = HttpResponse_getResult_body \<lparr>this = s, local_ret = ''''\<rparr> in (local_ret f, this f))"

datatype HttpResponse_call =
    Resp_setStatus status
  | Resp_setContentType string
  | Resp_addHeadValue string string
  | Resp_setBody string

fun HttpResponse_do :: "HttpResponse \<Rightarrow> HttpResponse_call \<Rightarrow> HttpResponse" where
  "HttpResponse_do s (Resp_setStatus st) = HttpResponse_setStatus st s"
| "HttpResponse_do s (Resp_setContentType t) = HttpResponse_setContentType t s"
| "HttpResponse_do s (Resp_addHeadValue f v) = HttpResponse_addHeadValue f v s"
| "HttpResponse_do s (Resp_setBody b) = HttpResponse_setBody b s"

text \<open>Setter calls whose header fields and values have no CR LF inside and whose header
  fields have no colon.\<close>

fun HttpResponse_call_ok :: "HttpResponse_call \<Rightarrow> bool" where
  "HttpResponse_call_ok (Resp_setStatus st) = True"
| "HttpResponse_call_ok (Resp_setContentType t) = (\<not> has_CRLF t)"
| "HttpResponse_call_ok (Resp_addHeadValue f v) = (field_ok f \<and> \<not> has_CRLF v)"
| "HttpResponse_call_ok (Resp_setBody b) = True"

section \<open>The header container and the serialisation loop\<close>

lemma foldl_header_lines:
  "foldl (\<lambda>ret v. ret @ header_line v) acc es = acc @ concat (map header_line es)"
  by (induction es arbitrary: acc) simp_all

lemma header_loop:
  "foldl (\<lambda>ret v. (((ret @ fst v) @ '': '') @ snd v) @ CRLF) acc es
     = acc @ concat (map header_line es)"
proof -
  have "(\<lambda>ret v. (((ret @ fst v) @ '': '') @ snd v) @ CRLF) = (\<lambda>ret v. ret @ header_line v)"
    by (simp add: header_line_def)
  then show ?thesis by (simp only: foldl_header_lines)
qed

lemma HttpRequest_getResult_parts:
  "HttpRequest_getResult s =
     HttpRequest_request_line s @ concat (HttpRequest_header_lines s) @ CRLF @ mBody s"
  unfolding HttpRequest_getResult_def HttpRequest_request_line_def
    HttpRequest_header_lines_def Let_def header_loop
  by simp

lemma HttpResponse_getResult_parts:
  "HttpResponse_getResult s =
     HttpResponse_status_line s @ concat (HttpResponse_header_lines s) @ CRLF @ rBody s"
  unfolding HttpResponse_getResult_def HttpResponse_status_line_def
    HttpResponse_header_lines_def Let_def header_loop
  by simp

lemma entries_sorted: "sorted_wrt (<) (map fst (entries m))"
  using entries [of m] by simp

lemma map_of_assign_entry: "map_of (assign_entry k v es) = (map_of es)(k \<mapsto> v)"
proof (induction es)
  case Nil
  show ?case by simp
next
  case (Cons e es)
  obtain k' v' where e: "e = (k', v')" by (cases e)
  have "k < k' \<or> (\<not> k < k' \<and> k' < k) \<or> (\<not> k < k' \<and> \<not> k' < k \<and> k = k')"
    by auto
  with Cons.IH show ?case
    by (elim disjE conjE) (auto simp: e fun_upd_twist)
qed

lemma filter_key_sorted:
  fixes es :: "(string \<times> string) list"
  shows "sorted_wrt (<) (map fst es) \<Longrightarrow>
     filter (\<lambda>e. fst e = k) es = (case map_of es k of None \<Rightarrow> [] | Some v \<Rightarrow> [(k, v)])"
proof (induction es)
  case Nil
  show ?case by simp
next
  case (Cons e es)
  obtain k' v' where e: "e = (k', v')" by (cases e)
  from Cons.prems have tl: "sorted_wrt (<) (map fst es)"
    and hd: "\<forall>x \<in> set es. k' < fst x"
    by (simp_all add: e)
  show ?case
  proof (cases "k' = k")
    case True
    with hd have "\<forall>x \<in> set es. fst x \<noteq> k" by auto
    then have "filter (\<lambda>e. fst e = k) es = []" by (simp add: filter_empty_conv)
    with True show ?thesis by (simp add: e)
  next
    case False
    with Cons.IH [OF tl] show ?thesis by (simp add: e)
  qed
qed

lemma entries_eqI:
  fixes xs ys :: "(string \<times> string) list"
  assumes "sorted_wrt (<) (map fst xs)" "sorted_wrt (<) (map fst ys)" "map_of xs = map_of ys"
  shows "xs = ys"
proof -
  from assms(1,2) have d: "distinct (map fst xs)" "distinct (map fst ys)"
    and s: "sorted (map fst xs)" "sorted (map fst ys)"
    by (simp_all add: strict_sorted_iff)
  from d assms(3) have eq: "set xs = set ys" by (simp add: map_of_inject_set)
  from d(1) have "inj_on fst (set xs)" by (simp add: distinct_map)
  with eq have "inj_on fst (set xs \<union> set ys)" by simp
  then show ?thesis using s(1) d(1) s(2) d(2) eq by (rule map_sorted_distinct_set_unique)
qed

lemma filter_key_entries:
  "filter (\<lambda>e. fst e = k) (entries m)
     = (case map_of (entries m) k of None \<Rightarrow> [] | Some v \<Rightarrow> [(k, v)])"
  using entries_sorted by (rule filter_key_sorted)

lemma map_of_entries_assign:
  "map_of (entries (map_assign k v m)) = (map_of (entries m))(k \<mapsto> v)"
  by (simp add: map_assign.rep_eq map_of_assign_entry)

lemma filter_key_assign_same:
  "filter (\<lambda>e. fst e = k) (entries (map_assign k v m)) = [(k, v)]"
  by (simp add: filter_key_entries map_of_entries_assign)

lemma filter_key_assign_other:
  "k' \<noteq> k \<Longrightarrow> filter (\<lambda>e. fst e = k') (entries (map_assign k v m))
     = filter (\<lambda>e. fst e = k') (entries m)"
  by (simp add: filter_key_entries map_of_entries_assign)

section \<open>Decimal numbers and header lines\<close>

lemma digit_char_neq_colon: "d < 10 \<Longrightarrow> digit_char d \<noteq> CHR '':''"
proof -
  assume "d < 10"
  then have "d \<in> {0, 1, 2, 3, 4, 5, 6, 7, 8, 9}" by auto
  then show ?thesis by (auto simp: digit_char_def)
qed

lemma to_string_nat_no_colon: "CHR '':'' \<notin> set (to_string_nat n)"
proof (induction n rule: to_string_nat.induct)
  case (1 n)
  show ?case
  proof (cases "n < 10")
    case True
    then have "digit_char n \<noteq> CHR '':''" by (rule digit_char_neq_colon)
    with True show ?thesis
      by (subst to_string_nat.simps) auto
  next
    case False
    have "n mod 10 < 10" by simp
    then have "digit_char (n mod 10) \<noteq> CHR '':''" by (rule digit_char_neq_colon)
    with False 1 show ?thesis
      by (subst to_string_nat.simps) auto
  qed
qed

lemma header_line_inj:
  assumes k': "CHR '':'' \<notin> set k'" and v': "CHR '':'' \<notin> set v'"
    and eq: "header_line (k, v) = header_line (k', v')"
  shows "k = k' \<and> v = v'"
proof -
  from v' have rest: "CHR '':'' \<notin> set (CHR '' '' # v' @ CRLF)"
    by (simp add: CRLF_def)
  from eq have "k' @ CHR '':'' # (CHR '' '' # v' @ CRLF) = k @ CHR '':'' # (CHR '' '' # v @ CRLF)"
    by (simp add: header_line_def)
  then have "k' = k \<and> CHR '' '' # v' @ CRLF = CHR '' '' # v @ CRLF"
    by (rule append_Cons_eq_iff [OF k' rest, THEN iffD1])
  then show ?thesis by simp
qed

lemma HttpRequest_setBody_fields:
  "mBody (HttpRequest_setBody b s) = b"
  "mHeadField (HttpRequest_setBody b s)
     = map_assign ''Content-Length'' (to_string_nat (length b)) (mHeadField s)"
  by (simp_all add: HttpRequest_setBody_def HttpRequest_addHeadValue_def)

lemma HttpResponse_setBody_fields:
  "rBody (HttpResponse_setBody b s) = b"
  "rHeadField (HttpResponse_setBody b s)
     = map_assign ''Content-Length'' (to_string_nat (length b)) (rHeadField s)"
  by (simp_all add: HttpResponse_setBody_def HttpResponse_addHeadValue_def)

section \<open>Sequences of assignments\<close>

lemma map_of_entries_assign_all:
  "map_of (entries (map_assign_all kvs m)) = map_of (entries m) ++ map_of (rev kvs)"
proof (induction kvs arbitrary: m)
  case Nil
  show ?case by (simp add: map_assign_all_def)
next
  case (Cons kv kvs)
  obtain k v where kv: "kv = (k, v)" by (cases kv)
  have step: "map_assign_all (kv # kvs) m = map_assign_all kvs (map_assign k v m)"
    by (simp add: map_assign_all_def kv)
  have "map_of (rev (kv # kvs)) = [k \<mapsto> v] ++ map_of (rev kvs)"
    by (simp add: kv)
  moreover have "map_of (entries m) ++ ([k \<mapsto> v] ++ map_of (rev kvs))
      = (map_of (entries m))(k \<mapsto> v) ++ map_of (rev kvs)"
    by (rule ext) (simp add: map_add_def split: option.split)
  ultimately show ?case
    by (simp only: step Cons.IH map_of_entries_assign)
qed

lemma map_assign_all_permute:
  assumes "distinct (map fst xs)" "distinct (map fst ys)" "set xs = set ys"
  shows "map_assign_all xs m = map_assign_all ys m"
proof -
  from assms(1,2) have "distinct (map fst (rev xs))" "distinct (map fst (rev ys))"
    by (simp_all add: distinct_map)
  moreover from assms(3) have "set (rev xs) = set (rev ys)" by simp
  ultimately have "map_of (rev xs) = map_of (rev ys)"
    by (simp only: map_of_inject_set)
  then have "map_of (entries (map_assign_all xs m)) = map_of (entries (map_assign_all ys m))"
    by (simp add: map_of_entries_assign_all)
  with entries_sorted entries_sorted
  have "entries (map_assign_all xs m) = entries (map_assign_all ys m)"
    by (rule entries_eqI)
  then show ?thesis by (simp add: entries_inject)
qed

lemma HttpRequest_addHeadValues_eq:
  "HttpRequest_addHeadValues kvs s = s\<lparr>mHeadField := map_assign_all kvs (mHeadField s)\<rparr>"
proof (induction kvs arbitrary: s)
  case Nil
  show ?case by (simp add: HttpRequest_addHeadValues_def map_assign_all_def)
next
  case (Cons kv kvs)
  have "HttpRequest_addHeadValues (kv # kvs) s
      = HttpRequest_addHeadValues kvs (HttpRequest_addHeadValue (fst kv) (snd kv) s)"
    by (simp add: HttpRequest_addHeadValues_def case_prod_unfold)
  then show ?case
    by (simp add: Cons.IH HttpRequest_addHeadValue_def map_assign_all_def case_prod_unfold)
qed

lemma HttpResponse_addHeadValues_eq:
  "HttpResponse_addHeadValues kvs s = s\<lparr>rHeadField := map_assign_all kvs (rHeadField s)\<rparr>"
proof (induction kvs arbitrary: s)
  case Nil
  show ?case by (simp add: HttpResponse_addHeadValues_def map_assign_all_def)
next
  case (Cons kv kvs)
  have "HttpResponse_addHeadValues (kv # kvs) s
      = HttpResponse_addHeadValues kvs (HttpResponse_addHeadValue (fst kv) (snd kv) s)"
    by (simp add: HttpResponse_addHeadValues_def case_prod_unfold)
  then show ?case
    by (simp add: Cons.IH HttpResponse_addHeadValue_def map_assign_all_def case_prod_unfold)
qed

section \<open>Status codes read as signed integers\<close>

lemma sint_below_int_max:
  fixes st :: status
  assumes "unat st < 2 ^ 31"
  shows "sint st = int (unat st)"
proof -
  from assms have "int (unat st) < int (2 ^ 31)" by (simp only: of_nat_less_iff)
  then have lt: "uint st < 2 ^ 31" by simp
  have "- (2 ^ 31) \<le> (0::int)" by simp
  also have "0 \<le> uint st" by (rule uint_ge_0)
  finally have ge: "- (2 ^ 31) \<le> uint st" .
  have "sint st = signed_take_bit 31 (uint st)" by (simp add: sint_uint)
  also from ge lt have "\<dots> = uint st" by (rule signed_take_bit_int_eq_self)
  finally show ?thesis by simp
qed

lemma unknown_status_line_below_int_max:
  assumes "map_of status_cases (mStatus s) = None" and "unat (mStatus s) < 2 ^ 31"
  shows "HttpResponse_status_line s
     = ''HTTP/1.1 '' @ to_string_nat (unat (mStatus s)) @ '' <unknown-status>'' @ CRLF"
proof -
  from assms(2) have "sint (mStatus s) = int (unat (mStatus s))"
    by (rule sint_below_int_max)
  then have "to_string_int (sint (mStatus s)) = to_string_nat (unat (mStatus s))"
    by (simp only: to_string_int_def nat_int) simp
  with assms(1) show ?thesis
    by (simp only: HttpResponse_status_line_def toStatusString_def option.case) simp
qed

section \<open>The query accumulator\<close>

lemma add_by_value_mParameter:
  "mParameter (HttpQueryParameter_add (Other_string k) (Other_string v) q) =
     (if mParameter q = [] then k @ ''='' @ v else mParameter q @ ''&'' @ k @ ''='' @ v)"
  by (simp add: HttpQueryParameter_add_def Let_def)

lemma spec_query_string_nonempty: "kvs \<noteq> [] \<Longrightarrow> spec_query_string kvs \<noteq> []"
  by (induction kvs rule: spec_query_string.induct) simp_all

lemma spec_query_string_snoc:
  "spec_query_string (kvs @ [(k, v)]) =
     (if kvs = [] then k @ ''='' @ v else spec_query_string kvs @ ''&'' @ k @ ''='' @ v)"
proof (induction kvs rule: spec_query_string.induct)
  case 1
  show ?case by simp
next
  case (2 k' v')
  show ?case by simp
next
  case (3 k' v' kv kvs)
  then show ?case by simp
qed

lemma calls_snoc:
  "HttpQueryParameter_calls (cs @ [(k, v)]) q =
     HttpQueryParameter_add k v (HttpQueryParameter_calls cs q)"
  by (simp add: HttpQueryParameter_calls_def)

lemma calls_by_value_mParameter:
  "mParameter (HttpQueryParameter_calls (map by_value kvs) HttpQueryParameter_ctor)
     = spec_query_string kvs"
proof (induction kvs rule: rev_induct)
  case Nil
  show ?case
    by (simp add: HttpQueryParameter_calls_def HttpQueryParameter_ctor_def)
next
  case (snoc kv kvs)
  obtain k v where kv: "kv = (k, v)" by (cases kv)
  have step: "HttpQueryParameter_calls (map by_value (kvs @ [kv])) HttpQueryParameter_ctor
      = HttpQueryParameter_add (Other_string k) (Other_string v)
          (HttpQueryParameter_calls (map by_value kvs) HttpQueryParameter_ctor)"
    by (simp add: kv by_value_def calls_snoc)
  show ?case
  proof (cases "kvs = []")
    case True
    then show ?thesis
      by (simp add: kv by_value_def HttpQueryParameter_calls_def HttpQueryParameter_ctor_def
          add_by_value_mParameter)
  next
    case False
    then have "spec_query_string kvs \<noteq> []" by (rule spec_query_string_nonempty)
    with snoc False show ?thesis
      unfolding step by (simp add: add_by_value_mParameter spec_query_string_snoc kv)
  qed
qed

lemma argument_values_by_value: "argument_values (map by_value kvs) q = kvs"
  by (induction kvs arbitrary: q) (simp_all add: by_value_def)

section \<open>Lines of a byte string\<close>

lemma split_crlf_nonempty: "split_crlf s \<noteq> []"
  by (induction s rule: split_crlf.induct) (auto split: list.split)

lemma join_crlf_Cons: "join_crlf ((c # l) # ls) = c # join_crlf (l # ls)"
  by (cases ls) simp_all

lemma join_crlf_Nil_Cons: "ls \<noteq> [] \<Longrightarrow> join_crlf ([] # ls) = CRLF @ join_crlf ls"
  by (cases ls) simp_all

lemma join_split_crlf: "join_crlf (split_crlf s) = s"
proof (induction s rule: split_crlf.induct)
  case (1 c d cs)
  show ?case
  proof (cases "c = CHR 0x0D \<and> d = CHR 0x0A")
    case True
    with 1 show ?thesis
      by (simp add: join_crlf_Nil_Cons split_crlf_nonempty CRLF_def)
  next
    case False
    obtain l ls where sp: "split_crlf (d # cs) = l # ls"
      using split_crlf_nonempty [of "d # cs"] by (cases "split_crlf (d # cs)") auto
    from False sp have "split_crlf (c # d # cs) = (c # l) # ls" by auto
    moreover from False 1(2) sp have "join_crlf (l # ls) = d # cs" by auto
    ultimately show ?thesis by (simp only: join_crlf_Cons)
  qed
next
  case 3
  show ?case by simp
next
  case (2 v)
  show ?case by simp
qed

lemma has_CRLF_Cons: "c \<noteq> CHR 0x0D \<Longrightarrow> has_CRLF (c # s) = has_CRLF s"
  by (cases s) simp_all

lemma has_CRLF_append:
  "has_CRLF (a @ b) \<longleftrightarrow>
     has_CRLF a \<or> has_CRLF b \<or> (a \<noteq> [] \<and> b \<noteq> [] \<and> last a = CHR 0x0D \<and> hd b = CHR 0x0A)"
proof (induction a rule: has_CRLF.induct)
  case (1 c d cs)
  then show ?case by auto
next
  case 3
  show ?case by simp
next
  case (2 v)
  show ?case by (cases b) auto
qed

lemma no_CR_no_CRLF: "CHR 0x0D \<notin> set s \<Longrightarrow> \<not> has_CRLF s"
  by (induction s rule: has_CRLF.induct) auto

lemma no_CRLF_glue:
  "\<not> has_CRLF a \<Longrightarrow> \<not> has_CRLF (c # b) \<Longrightarrow> c \<noteq> CHR 0x0A \<Longrightarrow> \<not> has_CRLF (a @ c # b)"
  by (simp add: has_CRLF_append)

lemma split_crlf_line:
  "\<not> has_CRLF l \<Longrightarrow> split_crlf (l @ CRLF @ rest) = l # split_crlf rest"
proof (induction l rule: has_CRLF.induct)
  case (1 c d cs)
  then have "\<not> (c = CHR 0x0D \<and> d = CHR 0x0A)" and "\<not> has_CRLF (d # cs)" by auto
  with 1(1) show ?case by simp
next
  case 3
  show ?case by (simp add: CRLF_def)
next
  case (2 v)
  show ?case by (simp add: CRLF_def)
qed

lemma split_crlf_lines:
  "list_all (\<lambda>l. \<not> has_CRLF l) ls \<Longrightarrow>
     split_crlf (concat (map (\<lambda>l. l @ CRLF) ls) @ rest) = ls @ split_crlf rest"
  by (induction ls) (simp_all add: split_crlf_line)

section \<open>The lines of a serialised message\<close>

lemma header_line_text: "header_line e = header_text e @ CRLF"
  by (simp add: header_line_def header_text_def)

lemma header_text_nonempty: "header_text e \<noteq> []"
  by (simp add: header_text_def)

lemma has_CRLF_header_text:
  "has_CRLF (header_text (k, v)) \<longleftrightarrow> has_CRLF k \<or> has_CRLF v"
  by (simp add: header_text_def has_CRLF_append has_CRLF_Cons)

lemma split_crlf_message:
  assumes "\<not> has_CRLF start" and "list_all (\<lambda>e. \<not> has_CRLF (header_text e)) es"
  shows "split_crlf ((start @ CRLF) @ concat (map header_line es) @ CRLF @ body)
     = start # map header_text es @ [] # split_crlf body"
proof -
  have "header_line = (\<lambda>e. header_text e @ CRLF)"
    by (rule ext) (rule header_line_text)
  then have "concat (map header_line es) = concat (map (\<lambda>l. l @ CRLF) (map header_text es))"
    by (simp add: comp_def)
  moreover from assms(2) have "list_all (\<lambda>l. \<not> has_CRLF l) (map header_text es)"
    by (simp add: list_all_iff)
  ultimately have "split_crlf (concat (map header_line es) @ CRLF @ body)
      = map header_text es @ split_crlf (CRLF @ body)"
    by (simp only: split_crlf_lines)
  moreover have "split_crlf (CRLF @ body) = [] # split_crlf body"
    using split_crlf_line [of "[]" body] by simp
  moreover have "split_crlf ((start @ CRLF) @ concat (map header_line es) @ CRLF @ body)
      = start # split_crlf (concat (map header_line es) @ CRLF @ body)"
    using split_crlf_line [OF assms(1)] by simp
  ultimately show ?thesis by simp
qed

lemma message_parts:
  assumes "\<not> has_CRLF start" and "list_all (\<lambda>e. \<not> has_CRLF (header_text e)) es"
  shows "start_line_of ((start @ CRLF) @ concat (map header_line es) @ CRLF @ body) = start"
    and "header_lines_of ((start @ CRLF) @ concat (map header_line es) @ CRLF @ body)
       = map header_text es"
    and "body_of ((start @ CRLF) @ concat (map header_line es) @ CRLF @ body) = Some body"
proof -
  let ?out = "(start @ CRLF) @ concat (map header_line es) @ CRLF @ body"
  have sp: "split_crlf ?out = start # map header_text es @ [] # split_crlf body"
    using assms by (rule split_crlf_message)
  have ne: "\<And>l. l \<in> set (map header_text es) \<Longrightarrow> l \<noteq> []"
    by (auto simp: header_text_nonempty)
  show "start_line_of ?out = start"
    by (simp only: start_line_of_def sp list.case)
  have "takeWhile (\<lambda>l. l \<noteq> []) (map header_text es @ [] # split_crlf body)
      = map header_text es @ takeWhile (\<lambda>l. l \<noteq> []) ([] # split_crlf body)"
    by (rule takeWhile_append2) (rule ne)
  then show "header_lines_of ?out = map header_text es"
    unfolding header_lines_of_def sp list.sel by simp
  have "dropWhile (\<lambda>l. l \<noteq> []) (map header_text es @ [] # split_crlf body)
      = dropWhile (\<lambda>l. l \<noteq> []) ([] # split_crlf body)"
    by (rule dropWhile_append2) (rule ne)
  then have "dropWhile (\<lambda>l. l \<noteq> []) (map header_text es @ [] # split_crlf body)
      = [] # split_crlf body"
    by simp
  then show "body_of ?out = Some body"
    unfolding body_of_def sp list.sel by (simp add: join_split_crlf)
qed

lemma set_assign_entry: "set (assign_entry k v es) \<subseteq> insert (k, v) (set es)"
proof (induction es)
  case Nil
  show ?case by simp
next
  case (Cons e es)
  obtain k' v' where e: "e = (k', v')" by (cases e)
  have "k < k' \<or> (\<not> k < k' \<and> k' < k) \<or> (\<not> k < k' \<and> \<not> k' < k \<and> k = k')"
    by auto
  with Cons.IH show ?case
    by (elim disjE conjE) (auto simp: e)
qed

lemma set_entries_assign: "set (entries (map_assign k v m)) \<subseteq> insert (k, v) (set (entries m))"
  by (simp add: map_assign.rep_eq set_assign_entry)

lemma entries_no_CRLF_assign:
  assumes "entries_no_CRLF m" and "\<not> has_CRLF k" and "\<not> has_CRLF v"
  shows "entries_no_CRLF (map_assign k v m)"
  using assms set_entries_assign [of k v m]
  unfolding entries_no_CRLF_def list_all_iff by auto

lemma entries_ok_assign:
  assumes "entries_ok m" and "field_ok k" and "\<not> has_CRLF v"
  shows "entries_ok (map_assign k v m)"
  using assms set_entries_assign [of k v m]
  unfolding entries_ok_def list_all_iff by auto

lemma entries_ok_no_CRLF: "entries_ok m \<Longrightarrow> entries_no_CRLF m"
  unfolding entries_ok_def entries_no_CRLF_def list_all_iff field_ok_def by auto

lemma entries_no_CRLF_texts:
  "entries_no_CRLF m \<Longrightarrow> list_all (\<lambda>e. \<not> has_CRLF (header_text e)) (entries m)"
  unfolding entries_no_CRLF_def list_all_iff
  by (auto simp: has_CRLF_header_text)

section \<open>Decimal numbers\<close>

lemma digit_range: "d < (10::nat) \<Longrightarrow> d \<in> {0, 1, 2, 3, 4, 5, 6, 7, 8, 9}"
  by auto

lemma digit_char_is_digit: "d < 10 \<Longrightarrow> is_digit (digit_char d)"
  by (drule digit_range) (auto simp: digit_char_def is_digit_def)

lemma digit_char_zero: "d < 10 \<Longrightarrow> (digit_char d = CHR ''0'') = (d = 0)"
  by (drule digit_range) (auto simp: digit_char_def)

lemma digit_char_code: "d < 10 \<Longrightarrow> of_char (digit_char d) = 48 + d"
  by (drule digit_range) (auto simp: digit_char_def)

lemma to_string_nat_nonempty: "to_string_nat n \<noteq> []"
  by (subst to_string_nat.simps) simp

lemma to_string_nat_digits: "list_all is_digit (to_string_nat n)"
proof (induction n rule: to_string_nat.induct)
  case (1 n)
  show ?case
  proof (cases "n < 10")
    case True
    then show ?thesis
      by (subst to_string_nat.simps) (simp add: digit_char_is_digit)
  next
    case False
    have "n mod 10 < 10" by simp
    then have "is_digit (digit_char (n mod 10))" by (rule digit_char_is_digit)
    with False 1 show ?thesis
      by (subst to_string_nat.simps) simp
  qed
qed

lemma decimal_value_snoc:
  "decimal_value (ds @ [c]) = 10 * decimal_value ds + (of_char c - 48)"
  by (simp add: decimal_value_def)

lemma decimal_value_to_string_nat: "decimal_value (to_string_nat n) = n"
proof (induction n rule: to_string_nat.induct)
  case (1 n)
  show ?case
  proof (cases "n < 10")
    case True
    then have "of_char (digit_char n) = 48 + n" by (rule digit_char_code)
    with True show ?thesis
      by (subst to_string_nat.simps) (simp add: decimal_value_def)
  next
    case False
    have "n mod 10 < 10" by simp
    then have "of_char (digit_char (n mod 10)) = 48 + n mod 10"
      by (rule digit_char_code)
    with False 1 show ?thesis
      by (subst to_string_nat.simps) (simp add: decimal_value_snoc)
  qed
qed

lemma to_string_nat_leading_zero: "(hd (to_string_nat n) = CHR ''0'') = (n = 0)"
proof (induction n rule: to_string_nat.induct)
  case (1 n)
  show ?case
  proof (cases "n < 10")
    case True
    then have "(digit_char n = CHR ''0'') = (n = 0)" by (rule digit_char_zero)
    with True show ?thesis
      by (subst to_string_nat.simps) simp
  next
    case False
    then have "n div 10 \<noteq> 0" by simp
    with False 1 show ?thesis
      by (subst to_string_nat.simps) (simp add: to_string_nat_nonempty)
  qed
qed

lemma not_digit_CR: "\<not> is_digit (CHR 0x0D)"
  by (simp add: is_digit_def)

lemma not_digit_colon: "\<not> is_digit (CHR '':'')"
  by (simp add: is_digit_def)

lemma digits_no_CR: "list_all is_digit ds \<Longrightarrow> CHR 0x0D \<notin> set ds"
  using not_digit_CR by (induction ds) auto

lemma digits_no_colon: "list_all is_digit ds \<Longrightarrow> CHR '':'' \<notin> set ds"
  using not_digit_colon by (induction ds) auto

lemma to_string_int_no_CR: "CHR 0x0D \<notin> set (to_string_int i)"
  using digits_no_CR [OF to_string_nat_digits] by (simp add: to_string_int_def)

section \<open>Start lines\<close>

lemma status_cases_no_CR: "list_all (\<lambda>c. CHR 0x0D \<notin> set (snd c)) status_cases"
  unfolding status_cases_def by simp

lemma toStatusString_no_CR: "CHR 0x0D \<notin> set (toStatusString s)"
proof (cases "map_of status_cases (mStatus s)")
  case None
  then show ?thesis by (simp add: toStatusString_def)
next
  case (Some p)
  then have "(mStatus s, p) \<in> set status_cases" by (rule map_of_SomeD)
  with status_cases_no_CR have "CHR 0x0D \<notin> set p"
    unfolding list_all_iff by force
  with Some show ?thesis by (simp add: toStatusString_def)
qed

lemma HttpResponse_status_line_text:
  "\<exists>t. HttpResponse_status_line s = t @ CRLF \<and> \<not> has_CRLF t"
proof -
  let ?t = "''HTTP/1.1 '' @ to_string_int (sint (mStatus s)) @ '' '' @ toStatusString s"
  have "CHR 0x0D \<notin> set ?t"
    using to_string_int_no_CR toStatusString_no_CR by simp
  then have "\<not> has_CRLF ?t" by (rule no_CR_no_CRLF)
  moreover have "HttpResponse_status_line s = ?t @ CRLF"
    by (simp add: HttpResponse_status_line_def)
  ultimately show ?thesis by blast
qed

lemma HttpRequest_request_line_text:
  assumes "\<not> has_CRLF (mUrl s)" and "\<not> has_CRLF (mQuery s)"
  shows "\<exists>t. HttpRequest_request_line s = t @ CRLF \<and> \<not> has_CRLF t"
proof -
  let ?m = "if method_value (mMethod s) \<ge> method_value HTTP_METHOD_HEAD
         \<and> method_value (mMethod s) < method_value HTTP_METHOD_MAX
      then HttpMethodString ! method_value (mMethod s) else ''''"
  let ?q = "if mQuery s \<noteq> [] then ''?'' @ mQuery s else ''''"
  have m: "\<not> has_CRLF ?m"
    by (cases "mMethod s") (simp_all add: HttpMethodString_def)
  have t3: "\<not> has_CRLF ('' HTTP/1.1'')" by simp
  have q: "\<not> has_CRLF (?q @ '' HTTP/1.1'')"
    using assms(2) by (simp add: has_CRLF_append has_CRLF_Cons)
  have "\<not> has_CRLF (mUrl s @ ?q @ '' HTTP/1.1'')"
    using assms(1) q by (cases "mQuery s = []") (simp_all add: has_CRLF_append)
  then have "\<not> has_CRLF ('' '' @ mUrl s @ ?q @ '' HTTP/1.1'')"
    by (simp add: has_CRLF_Cons)
  with m have "\<not> has_CRLF (?m @ '' '' @ mUrl s @ ?q @ '' HTTP/1.1'')"
    by (simp add: has_CRLF_append)
  moreover have "HttpRequest_request_line s = (?m @ '' '' @ mUrl s @ ?q @ '' HTTP/1.1'') @ CRLF"
    by (simp add: HttpRequest_request_line_def)
  ultimately show ?thesis by blast
qed

lemma HttpRequest_message:
  assumes "HttpRequest_no_CRLF s"
  shows "header_lines_of (HttpRequest_getResult s) = map header_text (entries (mHeadField s))"
    and "body_of (HttpRequest_getResult s) = Some (mBody s)"
proof -
  from assms obtain t where t: "HttpRequest_request_line s = t @ CRLF" "\<not> has_CRLF t"
    using HttpRequest_request_line_text unfolding HttpRequest_no_CRLF_def by blast
  from assms have es: "list_all (\<lambda>e. \<not> has_CRLF (header_text e)) (entries (mHeadField s))"
    unfolding HttpRequest_no_CRLF_def by (simp add: entries_no_CRLF_texts)
  have out: "HttpRequest_getResult s
      = (t @ CRLF) @ concat (map header_line (entries (mHeadField s))) @ CRLF @ mBody s"
    by (simp only: HttpRequest_getResult_parts t(1) HttpRequest_header_lines_def)
  show "header_lines_of (HttpRequest_getResult s) = map header_text (entries (mHeadField s))"
    unfolding out using t(2) es by (rule message_parts)
  show "body_of (HttpRequest_getResult s) = Some (mBody s)"
    unfolding out using t(2) es by (rule message_parts)
qed

lemma HttpResponse_message:
  assumes "entries_no_CRLF (rHeadField s)"
  shows "header_lines_of (HttpResponse_getResult s) = map header_text (entries (rHeadField s))"
    and "body_of (HttpResponse_getResult s) = Some (rBody s)"
proof -
  obtain t where t: "HttpResponse_status_line s = t @ CRLF" "\<not> has_CRLF t"
    using HttpResponse_status_line_text by blast
  from assms have es: "list_all (\<lambda>e. \<not> has_CRLF (header_text e)) (entries (rHeadField s))"
    by (rule entries_no_CRLF_texts)
  have out: "HttpResponse_getResult s
      = (t @ CRLF) @ concat (map header_line (entries (rHeadField s))) @ CRLF @ rBody s"
    by (simp only: HttpResponse_getResult_parts t(1) HttpResponse_header_lines_def)
  show "header_lines_of (HttpResponse_getResult s) = map header_text (entries (rHeadField s))"
    unfolding out using t(2) es by (rule message_parts)
  show "body_of (HttpResponse_getResult s) = Some (rBody s)"
    unfolding out using t(2) es by (rule message_parts)
qed

section \<open>Calls of getResult\<close>

lemma header_loop_frame:
  fixes f :: "'o frame"
  shows "foldl (\<lambda>f v. f\<lparr>local_ret := (((local_ret f @ fst v) @ '': '') @ snd v) @ CRLF\<rparr>) f es
     = f\<lparr>local_ret := local_ret f @ concat (map header_line es)\<rparr>"
proof -
  have eq: "(\<lambda>(f :: 'o frame) v. f\<lparr>local_ret := (((local_ret f @ fst v) @ '': '') @ snd v) @ CRLF\<rparr>)
      = (\<lambda>f v. f\<lparr>local_ret := local_ret f @ header_line v\<rparr>)"
    by (simp add: header_line_def)
  have "foldl (\<lambda>f v. f\<lparr>local_ret := local_ret f @ header_line v\<rparr>) f es
      = f\<lparr>local_ret := local_ret f @ concat (map header_line es)\<rparr>"
    by (induction es arbitrary: f) simp_all
  then show ?thesis unfolding eq .
qed

lemma HttpRequest_getResult_call_eq:
  "HttpRequest_getResult_call s = (HttpRequest_getResult s, s)"
  unfolding HttpRequest_getResult_call_def HttpRequest_getResult_body_def Let_def
    header_loop_frame
  by (simp add: HttpRequest_getResult_parts HttpRequest_request_line_def
      HttpRequest_header_lines_def)

lemma HttpResponse_getResult_call_eq:
  "HttpResponse_getResult_call s = (HttpResponse_getResult s, s)"
  unfolding HttpResponse_getResult_call_def HttpResponse_getResult_body_def Let_def
    header_loop_frame
  by (simp add: HttpResponse_getResult_parts HttpResponse_status_line_def
      HttpResponse_header_lines_def)

section \<open>Header lines read off the output\<close>

lemma filter_implied:
  "(\<And>x. x \<in> set xs \<Longrightarrow> P x \<Longrightarrow> Q x) \<Longrightarrow> filter P xs = filter P (filter Q xs)"
  by (induction xs) auto

lemma Content_Length_line_field:
  assumes "is_Content_Length_line (header_text e)"
  shows "fst e = ''Content-Length''"
proof -
  obtain k v where e: "e = (k, v)" by (cases e)
  let ?l = "header_text (k, v)"
  let ?d = "drop 16 ?l"
  from assms have tk: "take 16 ?l = ''Content-Length: ''" and dg: "list_all is_digit ?d"
    by (simp_all add: e is_Content_Length_line_def)
  have "?l = take 16 ?l @ ?d" by simp
  with tk have "?l = ''Content-Length: '' @ ?d" by simp
  then have "?l = header_text (''Content-Length'', ?d)" by (simp add: header_text_def)
  then have "header_line (k, v) = header_line (''Content-Length'', ?d)"
    by (simp only: header_line_text)
  moreover have "CHR '':'' \<notin> set ''Content-Length''" by simp
  moreover from dg have "CHR '':'' \<notin> set ?d" by (rule digits_no_colon)
  ultimately have "k = ''Content-Length'' \<and> v = ?d"
    using header_line_inj by blast
  then show ?thesis by (simp add: e)
qed

lemma Content_Length_line_text:
  "is_Content_Length_line (header_text (''Content-Length'', to_string_nat n))"
  by (simp add: is_Content_Length_line_def header_text_def to_string_nat_nonempty
      to_string_nat_digits)

lemma Content_Length_lines_assign:
  "filter is_Content_Length_line
       (map header_text (entries (map_assign ''Content-Length'' (to_string_nat n) m)))
     = [''Content-Length: '' @ to_string_nat n]"
proof -
  let ?es = "entries (map_assign ''Content-Length'' (to_string_nat n) m)"
  let ?P = "\<lambda>e. is_Content_Length_line (header_text e)"
  have "filter ?P ?es = filter ?P (filter (\<lambda>e. fst e = ''Content-Length'') ?es)"
    by (rule filter_implied) (rule Content_Length_line_field)
  also have "\<dots> = filter ?P [(''Content-Length'', to_string_nat n)]"
    by (simp only: filter_key_assign_same)
  also have "\<dots> = [(''Content-Length'', to_string_nat n)]"
    by (simp add: Content_Length_line_text)
  finally have "filter ?P ?es = [(''Content-Length'', to_string_nat n)]" .
  then have "map header_text (filter ?P ?es) = [''Content-Length: '' @ to_string_nat n]"
    by (simp add: header_text_def)
  then show ?thesis by (simp add: filter_map comp_def)
qed

lemma Content_Length_field_no_CRLF: "\<not> has_CRLF ''Content-Length''"
  by simp

lemma to_string_nat_no_CRLF: "\<not> has_CRLF (to_string_nat n)"
  using to_string_nat_digits by (intro no_CR_no_CRLF digits_no_CR)

lemma HttpRequest_setBody_no_CRLF:
  "HttpRequest_no_CRLF s \<Longrightarrow> HttpRequest_no_CRLF (HttpRequest_setBody b s)"
  unfolding HttpRequest_no_CRLF_def HttpRequest_setBody_fields
  using Content_Length_field_no_CRLF to_string_nat_no_CRLF
  by (simp add: HttpRequest_setBody_def HttpRequest_addHeadValue_def entries_no_CRLF_assign)

lemma HttpResponse_setBody_no_CRLF:
  "entries_no_CRLF (rHeadField r) \<Longrightarrow> entries_no_CRLF (rHeadField (HttpResponse_setBody b r))"
  unfolding HttpResponse_setBody_fields
  using Content_Length_field_no_CRLF to_string_nat_no_CRLF
  by (simp add: entries_no_CRLF_assign)

lemma takeWhile_before_colon:
  "CHR '':'' \<notin> set xs \<Longrightarrow> takeWhile (\<lambda>c. c \<noteq> CHR '':'') (xs @ CHR '':'' # ys) = xs"
  by (induction xs) auto

lemma line_is_for_header_text:
  assumes "CHR '':'' \<notin> set k" and "CHR '':'' \<notin> set k'"
  shows "line_is_for k (header_text (k', v')) \<longleftrightarrow> k' = k"
proof
  define rest where "rest = drop (length k + 2) (header_text (k', v'))"
  assume "line_is_for k (header_text (k', v'))"
  then have tk: "take (length k + 2) (header_text (k', v')) = k @ '': ''"
    by (simp only: line_is_for_def)
  have "take (length k + 2) (header_text (k', v')) @ rest = header_text (k', v')"
    unfolding rest_def by (rule append_take_drop_id)
  then have "(k @ '': '') @ rest = header_text (k', v')"
    by (simp only: tk)
  then have eq: "k @ CHR '':'' # (CHR '' '' # rest) = k' @ CHR '':'' # (CHR '' '' # v')"
    by (simp add: header_text_def)
  from assms(1) have "takeWhile (\<lambda>c. c \<noteq> CHR '':'') (k @ CHR '':'' # (CHR '' '' # rest)) = k"
    by (rule takeWhile_before_colon)
  moreover from assms(2)
  have "takeWhile (\<lambda>c. c \<noteq> CHR '':'') (k' @ CHR '':'' # (CHR '' '' # v')) = k'"
    by (rule takeWhile_before_colon)
  ultimately show "k' = k" by (simp only: eq)
next
  assume "k' = k"
  then show "line_is_for k (header_text (k', v'))"
    by (simp add: line_is_for_def header_text_def)
qed

lemma lines_for_entries_ok:
  assumes "entries_ok m" and "CHR '':'' \<notin> set k"
  shows "filter (line_is_for k) (map header_text (entries m))
     = map header_text (filter (\<lambda>e. fst e = k) (entries m))"
proof -
  have "line_is_for k (header_text e) \<longleftrightarrow> fst e = k" if "e \<in> set (entries m)" for e
  proof -
    obtain k' v' where e: "e = (k', v')" by (cases e)
    from that assms(1) have "CHR '':'' \<notin> set k'"
      unfolding entries_ok_def list_all_iff field_ok_def e by auto
    with assms(2) show ?thesis unfolding e by (simp add: line_is_for_header_text)
  qed
  then have "filter (\<lambda>e. line_is_for k (header_text e)) (entries m)
      = filter (\<lambda>e. fst e = k) (entries m)"
    by (intro filter_cong) auto
  then show ?thesis by (simp add: filter_map comp_def)
qed

lemma map_assign_twice: "map_assign k v2 (map_assign k v1 m) = map_assign k v2 m"
proof -
  have "map_of (entries (map_assign k v2 (map_assign k v1 m)))
      = map_of (entries (map_assign k v2 m))"
    by (simp add: map_of_entries_assign)
  with entries_sorted entries_sorted
  have "entries (map_assign k v2 (map_assign k v1 m)) = entries (map_assign k v2 m)"
    by (rule entries_eqI)
  then show ?thesis by (simp add: entries_inject)
qed

lemma lines_for_assign:
  assumes "entries_ok m" and "field_ok k" and "\<not> has_CRLF v"
  shows "filter (line_is_for k) (map header_text (entries (map_assign k v m)))
     = [k @ '': '' @ v]"
proof -
  from assms have "entries_ok (map_assign k v m)" by (rule entries_ok_assign)
  moreover from assms(2) have "CHR '':'' \<notin> set k" by (simp add: field_ok_def)
  ultimately have "filter (line_is_for k) (map header_text (entries (map_assign k v m)))
      = map header_text (filter (\<lambda>e. fst e = k) (entries (map_assign k v m)))"
    by (rule lines_for_entries_ok)
  then show ?thesis by (simp add: filter_key_assign_same header_text_def)
qed

section \<open>The Connection header of a response\<close>

lemma field_ok_literals:
  "field_ok ''Connection''" "field_ok ''Content-Type''" "field_ok ''Content-Length''"
  by (simp_all add: field_ok_def)

lemma entries_ok_empty: "entries_ok map_empty"
  by (simp add: entries_ok_def map_empty.rep_eq)

lemma Connection_entry_assign:
  assumes "\<exists>w. filter (\<lambda>e. fst e = ''Connection'') (entries m) = [(''Connection'', w)]"
  shows "\<exists>w. filter (\<lambda>e. fst e = ''Connection'') (entries (map_assign k v m))
     = [(''Connection'', w)]"
proof (cases "k = ''Connection''")
  case True
  then show ?thesis by (auto simp: filter_key_assign_same)
next
  case False
  then have "''Connection'' \<noteq> k" by simp
  then have "filter (\<lambda>e. fst e = ''Connection'') (entries (map_assign k v m))
      = filter (\<lambda>e. fst e = ''Connection'') (entries m)"
    by (rule filter_key_assign_other)
  with assms show ?thesis by simp
qed

lemma HttpResponse_calls_Connection_key:
  "\<exists>w. filter (\<lambda>e. fst e = ''Connection'')
          (entries (rHeadField (foldl HttpResponse_do (HttpResponse_ctor st ka) cs)))
     = [(''Connection'', w)]"
proof (induction cs rule: rev_induct)
  case Nil
  show ?case
    by (cases ka)
      (auto simp: HttpResponse_ctor_def HttpResponse_addHeadValue_def filter_key_assign_same)
next
  case (snoc c cs)
  let ?r = "foldl HttpResponse_do (HttpResponse_ctor st ka) cs"
  have step: "\<exists>w. filter (\<lambda>e. fst e = ''Connection'')
      (entries (rHeadField (HttpResponse_do ?r c))) = [(''Connection'', w)]"
  proof (cases c)
    case (Resp_setStatus st')
    with snoc show ?thesis by (simp add: HttpResponse_setStatus_def)
  next
    case (Resp_setContentType t)
    with Connection_entry_assign [OF snoc, of "''Content-Type''" t] show ?thesis
      by (simp add: HttpResponse_setContentType_def HttpResponse_addHeadValue_def)
  next
    case (Resp_addHeadValue f v)
    with Connection_entry_assign [OF snoc, of f v] show ?thesis
      by (simp add: HttpResponse_addHeadValue_def)
  next
    case (Resp_setBody b)
    with Connection_entry_assign [OF snoc, of "''Content-Length''" "to_string_nat (length b)"]
    show ?thesis by (simp add: HttpResponse_setBody_fields)
  qed
  then show ?case by simp
qed

lemma HttpResponse_ctor_invariant:
  "entries_ok (rHeadField (HttpResponse_ctor st ka))
   \<and> (\<exists>w. filter (\<lambda>e. fst e = ''Connection'') (entries (rHeadField (HttpResponse_ctor st ka)))
         = [(''Connection'', w)])"
proof (cases ka)
  case True
  then have "rHeadField (HttpResponse_ctor st ka)
      = map_assign ''Connection'' ''Keep-Alive'' map_empty"
    by (simp add: HttpResponse_ctor_def HttpResponse_addHeadValue_def)
  moreover have "entries_ok (map_assign ''Connection'' ''Keep-Alive'' map_empty)"
    using entries_ok_empty field_ok_literals(1) by (rule entries_ok_assign) simp
  ultimately show ?thesis by (auto simp: filter_key_assign_same)
next
  case False
  then have "rHeadField (HttpResponse_ctor st ka)
      = map_assign ''Connection'' ''Close'' map_empty"
    by (simp add: HttpResponse_ctor_def HttpResponse_addHeadValue_def)
  moreover have "entries_ok (map_assign ''Connection'' ''Close'' map_empty)"
    using entries_ok_empty field_ok_literals(1) by (rule entries_ok_assign) simp
  ultimately show ?thesis by (auto simp: filter_key_assign_same)
qed

lemma HttpResponse_do_invariant:
  assumes ok: "entries_ok (rHeadField s)"
    and conn: "\<exists>w. filter (\<lambda>e. fst e = ''Connection'') (entries (rHeadField s))
         = [(''Connection'', w)]"
    and c: "HttpResponse_call_ok c"
  shows "entries_ok (rHeadField (HttpResponse_do s c))
   \<and> (\<exists>w. filter (\<lambda>e. fst e = ''Connection'') (entries (rHeadField (HttpResponse_do s c)))
         = [(''Connection'', w)])"
proof -
  have assign: "entries_ok (map_assign k v (rHeadField s))
      \<and> (\<exists>w. filter (\<lambda>e. fst e = ''Connection'') (entries (map_assign k v (rHeadField s)))
            = [(''Connection'', w)])"
    if "field_ok k" and "\<not> has_CRLF v" for k v
    using entries_ok_assign [OF ok that] Connection_entry_assign [OF conn] by blast
  show ?thesis
  proof (cases c)
    case (Resp_setStatus st)
    with ok conn show ?thesis by (simp add: HttpResponse_setStatus_def)
  next
    case (Resp_setContentType t)
    with c have "\<not> has_CRLF t" by simp
    with field_ok_literals(2) have "entries_ok (map_assign ''Content-Type'' t (rHeadField s))
      \<and> (\<exists>w. filter (\<lambda>e. fst e = ''Connection'')
                (entries (map_assign ''Content-Type'' t (rHeadField s)))
            = [(''Connection'', w)])"
      by (rule assign)
    with Resp_setContentType show ?thesis
      by (simp add: HttpResponse_setContentType_def HttpResponse_addHeadValue_def)
  next
    case (Resp_addHeadValue f v)
    with c have "field_ok f" and "\<not> has_CRLF v" by simp_all
    then have "entries_ok (map_assign f v (rHeadField s))
      \<and> (\<exists>w. filter (\<lambda>e. fst e = ''Connection'') (entries (map_assign f v (rHeadField s)))
            = [(''Connection'', w)])"
      by (rule assign)
    with Resp_addHeadValue show ?thesis by (simp add: HttpResponse_addHeadValue_def)
  next
    case (Resp_setBody b)
    from field_ok_literals(3) to_string_nat_no_CRLF
    have "entries_ok (map_assign ''Content-Length'' (to_string_nat (length b)) (rHeadField s))
      \<and> (\<exists>w. filter (\<lambda>e. fst e = ''Connection'')
                (entries (map_assign ''Content-Length'' (to_string_nat (length b)) (rHeadField s)))
            = [(''Connection'', w)])"
      by (rule assign)
    with Resp_setBody show ?thesis by (simp add: HttpResponse_setBody_fields)
  qed
qed

lemma HttpResponse_calls_invariant:
  "list_all HttpResponse_call_ok cs \<Longrightarrow>
   entries_ok (rHeadField (foldl HttpResponse_do (HttpResponse_ctor st ka) cs))
   \<and> (\<exists>w. filter (\<lambda>e. fst e = ''Connection'')
              (entries (rHeadField (foldl HttpResponse_do (HttpResponse_ctor st ka) cs)))
         = [(''Connection'', w)])"
proof (induction cs rule: rev_induct)
  case Nil
  show ?case using HttpResponse_ctor_invariant by simp
next
  case (snoc c cs)
  let ?r = "foldl HttpResponse_do (HttpResponse_ctor st ka) cs"
  from snoc.prems have cs: "list_all HttpResponse_call_ok cs" and c: "HttpResponse_call_ok c"
    by simp_all
  from snoc.IH [OF cs] have ok: "entries_ok (rHeadField ?r)"
    and conn: "\<exists>w. filter (\<lambda>e. fst e = ''Connection'') (entries (rHeadField ?r))
         = [(''Connection'', w)]"
    by blast+
  from ok conn c have "entries_ok (rHeadField (HttpResponse_do ?r c))
   \<and> (\<exists>w. filter (\<lambda>e. fst e = ''Connection'') (entries (rHeadField (HttpResponse_do ?r c)))
         = [(''Connection'', w)])"
    by (rule HttpResponse_do_invariant)
  then show ?case by simp
qed

section \<open>The claims\<close>

text \<open>
  Claim C1. Each of the five methods HEAD, GET, POST, PUT and DELETE is to satisfy the
  assertion of \<open>setMethod\<close>, and only other values are to violate it. The assertion
  compares with \<^verbatim>\<open>>\<close> against \<^verbatim>\<open>HTTP_METHOD_HEAD\<close>: it holds for GET, POST, PUT and
  DELETE and fails for HEAD, as it does for \<^verbatim>\<open>HTTP_METHOD_MAX\<close>. \<open>getResult\<close> compares with
  \<^verbatim>\<open>>=\<close> and writes the name HEAD for a stored \<^verbatim>\<open>HTTP_METHOD_HEAD\<close>.
\<close>

theorem C1_setMethod_rejects_HEAD:
  "\<not> setMethod_assertion HTTP_METHOD_HEAD
   \<and> HttpRequest_setMethod HTTP_METHOD_HEAD s = Inl AssertionFailed
   \<and> HttpRequest_setMethod HTTP_METHOD_GET s = Inr (s\<lparr>mMethod := HTTP_METHOD_GET\<rparr>)
   \<and> HttpRequest_setMethod HTTP_METHOD_POST s = Inr (s\<lparr>mMethod := HTTP_METHOD_POST\<rparr>)
   \<and> HttpRequest_setMethod HTTP_METHOD_PUT s = Inr (s\<lparr>mMethod := HTTP_METHOD_PUT\<rparr>)
   \<and> HttpRequest_setMethod HTTP_METHOD_DELETE s = Inr (s\<lparr>mMethod := HTTP_METHOD_DELETE\<rparr>)
   \<and> HttpRequest_setMethod HTTP_METHOD_MAX s = Inl AssertionFailed
   \<and> HttpRequest_request_line (s\<lparr>mMethod := HTTP_METHOD_HEAD\<rparr>)
       = ''HEAD '' @ mUrl s @ (if mQuery s \<noteq> [] then ''?'' @ mQuery s else '''')
           @ '' HTTP/1.1'' @ CRLF"
  by (simp add: setMethod_assertion_def HttpRequest_setMethod_def HttpRequest_request_line_def
      HttpMethodString_def)

text \<open>
  Claim C2, as amended. For every byte string \<open>b\<close>, every request whose url, query, header
  fields and header values contain no CR LF sequence and every response whose header fields
  and values contain none: after \<open>setBody(b)\<close> the output of \<open>getResult()\<close> has, among its
  header lines (the lines of the output between the start line and the first empty line),
  exactly one line \<open>Content-Length: <decimal number>\<close>, and it is \<open>Content-Length: <n>\<close>
  with \<open>n\<close> the byte count of \<open>b\<close> in decimal (digits only, of value \<open>length b\<close>, no
  leading zero); the bytes after the first empty line are \<open>b\<close> verbatim. The object before
  the call is arbitrary within these conditions, so a body or a Content-Length header set
  earlier is covered: the most recent \<open>setBody\<close> decides.
\<close>

theorem C2_setBody_content_length:
  assumes "HttpRequest_no_CRLF s" and "entries_no_CRLF (rHeadField r)"
  shows "filter is_Content_Length_line
           (header_lines_of (HttpRequest_getResult (HttpRequest_setBody b s)))
         = [''Content-Length: '' @ to_string_nat (length b)]
       \<and> body_of (HttpRequest_getResult (HttpRequest_setBody b s)) = Some b
       \<and> filter is_Content_Length_line
           (header_lines_of (HttpResponse_getResult (HttpResponse_setBody b r)))
         = [''Content-Length: '' @ to_string_nat (length b)]
       \<and> body_of (HttpResponse_getResult (HttpResponse_setBody b r)) = Some b
       \<and> list_all is_digit (to_string_nat (length b))
       \<and> decimal_value (to_string_nat (length b)) = length b
       \<and> (hd (to_string_nat (length b)) = CHR ''0'') = (length b = 0)"
proof (intro conjI)
  from assms(1) have s': "HttpRequest_no_CRLF (HttpRequest_setBody b s)"
    by (rule HttpRequest_setBody_no_CRLF)
  from assms(2) have r': "entries_no_CRLF (rHeadField (HttpResponse_setBody b r))"
    by (rule HttpResponse_setBody_no_CRLF)
  show "filter is_Content_Length_line
           (header_lines_of (HttpRequest_getResult (HttpRequest_setBody b s)))
         = [''Content-Length: '' @ to_string_nat (length b)]"
    unfolding HttpRequest_message(1) [OF s'] HttpRequest_setBody_fields
    by (rule Content_Length_lines_assign)
  show "body_of (HttpRequest_getResult (HttpRequest_setBody b s)) = Some b"
    unfolding HttpRequest_message(2) [OF s'] HttpRequest_setBody_fields ..
  show "filter is_Content_Length_line
           (header_lines_of (HttpResponse_getResult (HttpResponse_setBody b r)))
         = [''Content-Length: '' @ to_string_nat (length b)]"
    unfolding HttpResponse_message(1) [OF r'] HttpResponse_setBody_fields
    by (rule Content_Length_lines_assign)
  show "body_of (HttpResponse_getResult (HttpResponse_setBody b r)) = Some b"
    unfolding HttpResponse_message(2) [OF r'] HttpResponse_setBody_fields ..
  show "list_all is_digit (to_string_nat (length b))"
    by (rule to_string_nat_digits)
  show "decimal_value (to_string_nat (length b)) = length b"
    by (rule decimal_value_to_string_nat)
  show "(hd (to_string_nat (length b)) = CHR ''0'') = (length b = 0)"
    by (rule to_string_nat_leading_zero)
qed

theorem C2_setBody_content_length_witness:
  "HttpRequest_no_CRLF (HttpRequest_addHeadValue ''Host'' ''h'' HttpRequest_new)
   \<and> entries_no_CRLF (rHeadField (HttpResponse_ctor status_ok True))
   \<and> filter is_Content_Length_line
        (header_lines_of
           (HttpRequest_getResult
              (HttpRequest_setBody ''hello''
                 (HttpRequest_addHeadValue ''Host'' ''h'' HttpRequest_new))))
       = [''Content-Length: '' @ ''5'']
   \<and> body_of
        (HttpRequest_getResult
           (HttpRequest_setBody ''hello''
              (HttpRequest_addHeadValue ''Host'' ''h'' HttpRequest_new)))
       = Some ''hello''
   \<and> filter is_Content_Length_line
        (header_lines_of
           (HttpResponse_getResult
              (HttpResponse_setBody ''hello'' (HttpResponse_ctor status_ok True))))
       = [''Content-Length: '' @ ''5'']
   \<and> body_of
        (HttpResponse_getResult
           (HttpResponse_setBody ''hello'' (HttpResponse_ctor status_ok True)))
       = Some ''hello''"
proof -
  have h1: "HttpRequest_no_CRLF (HttpRequest_addHeadValue ''Host'' ''h'' HttpRequest_new)"
    by code_simp
  have h2: "entries_no_CRLF (rHeadField (HttpResponse_ctor status_ok True))"
    by code_simp
  have n: "to_string_nat (length ''hello'') = ''5''"
    by (simp add: to_string_nat.simps digit_char_def)
  from C2_setBody_content_length [OF h1 h2, of "''hello''", unfolded n] h1 h2
  show ?thesis by blast
qed

text \<open>
  Claim C2 as stated, for every request and byte string, fails on the output bytes: header
  values and the url are copied into the output as they are. After
  \<open>addHeadValue("A", "x\r\nContent-Length: 1")\<close> and \<open>setBody("b")\<close> the header lines of
  the output hold the line \<open>Content-Length: 1\<close> twice; after \<open>setUrl("/\r\n\r\nx")\<close> and
  \<open>setBody("b")\<close> the bytes after the first empty line are not \<open>b\<close>.
\<close>

theorem C2_injected_lines:
  "header_lines_of
      (HttpRequest_getResult
         (HttpRequest_setBody ''b''
            (HttpRequest_addHeadValue ''A'' (''x'' @ CRLF @ ''Content-Length: 1'')
               HttpRequest_new)))
     = [''A: x'', ''Content-Length: 1'', ''Content-Length: 1'']
   \<and> filter is_Content_Length_line
        (header_lines_of
           (HttpRequest_getResult
              (HttpRequest_setBody ''b''
                 (HttpRequest_addHeadValue ''A'' (''x'' @ CRLF @ ''Content-Length: 1'')
                    HttpRequest_new))))
     = [''Content-Length: 1'', ''Content-Length: 1'']
   \<and> body_of
        (HttpRequest_getResult
           (HttpRequest_setBody ''b''
              (HttpRequest_setUrl (''/'' @ CRLF @ CRLF @ ''x'') HttpRequest_new)))
     = Some (''x HTTP/1.1'' @ CRLF @ ''Content-Length: 1'' @ CRLF @ CRLF @ ''b'')"
  by code_simp

text \<open>
  Claim C3. For header pairs with distinct fields, added by \<open>addHeadValue\<close> in two
  different orders (the lists \<open>xs\<close> and \<open>ys\<close> hold the same pairs) to two serializers in
  the same state, a fresh one in particular, \<open>getResult()\<close> gives byte-identical outputs:
  the header lines come in ascending order of the field names, compared bytewise, whatever
  the order of insertion.
\<close>

theorem C3_header_order_independent:
  assumes "distinct (map fst xs)" and "distinct (map fst ys)" and "set xs = set ys"
  shows "HttpRequest_getResult (HttpRequest_addHeadValues xs s)
           = HttpRequest_getResult (HttpRequest_addHeadValues ys s)
         \<and> HttpResponse_getResult (HttpResponse_addHeadValues xs r)
           = HttpResponse_getResult (HttpResponse_addHeadValues ys r)
         \<and> sorted_wrt (<) (map fst (entries (mHeadField (HttpRequest_addHeadValues xs s))))
         \<and> sorted_wrt (<) (map fst (entries (rHeadField (HttpResponse_addHeadValues xs r))))"
proof (intro conjI)
  from assms have eq: "map_assign_all xs m = map_assign_all ys m" for m
    by (rule map_assign_all_permute)
  show "HttpRequest_getResult (HttpRequest_addHeadValues xs s)
           = HttpRequest_getResult (HttpRequest_addHeadValues ys s)"
    by (simp only: HttpRequest_addHeadValues_eq eq)
  show "HttpResponse_getResult (HttpResponse_addHeadValues xs r)
           = HttpResponse_getResult (HttpResponse_addHeadValues ys r)"
    by (simp only: HttpResponse_addHeadValues_eq eq)
  show "sorted_wrt (<) (map fst (entries (mHeadField (HttpRequest_addHeadValues xs s))))"
    by (rule entries_sorted)
  show "sorted_wrt (<) (map fst (entries (rHeadField (HttpResponse_addHeadValues xs r))))"
    by (rule entries_sorted)
qed

theorem C3_header_order_independent_witness:
  "distinct (map fst [(''Host'', ''h''), (''Accept'', ''a''), (''Cookie'', ''c'')])
   \<and> distinct (map fst [(''Cookie'', ''c''), (''Host'', ''h''), (''Accept'', ''a'')])
   \<and> set [(''Host'', ''h''), (''Accept'', ''a''), (''Cookie'', ''c'')]
       = set [(''Cookie'', ''c''), (''Host'', ''h''), (''Accept'', ''a'')]
   \<and> HttpRequest_getResult
         (HttpRequest_addHeadValues [(''Host'', ''h''), (''Accept'', ''a''), (''Cookie'', ''c'')]
            HttpRequest_new)
       = HttpRequest_getResult
         (HttpRequest_addHeadValues [(''Cookie'', ''c''), (''Host'', ''h''), (''Accept'', ''a'')]
            HttpRequest_new)
   \<and> HttpResponse_getResult
         (HttpResponse_addHeadValues [(''Host'', ''h''), (''Accept'', ''a''), (''Cookie'', ''c'')]
            (HttpResponse_ctor status_ok True))
       = HttpResponse_getResult
         (HttpResponse_addHeadValues [(''Cookie'', ''c''), (''Host'', ''h''), (''Accept'', ''a'')]
            (HttpResponse_ctor status_ok True))
   \<and> HttpRequest_getResult
         (HttpRequest_addHeadValues [(''Cookie'', ''c''), (''Host'', ''h''), (''Accept'', ''a'')]
            HttpRequest_new)
       = ''GET  HTTP/1.1'' @ CRLF @ ''Accept: a'' @ CRLF @ ''Cookie: c'' @ CRLF
           @ ''Host: h'' @ CRLF @ CRLF"
proof -
  have out: "HttpRequest_getResult
         (HttpRequest_addHeadValues [(''Cookie'', ''c''), (''Host'', ''h''), (''Accept'', ''a'')]
            HttpRequest_new)
       = ''GET  HTTP/1.1'' @ CRLF @ ''Accept: a'' @ CRLF @ ''Cookie: c'' @ CRLF
           @ ''Host: h'' @ CRLF @ CRLF"
    by code_simp
  have d1: "distinct (map fst [(''Host'', ''h''), (''Accept'', ''a''), (''Cookie'', ''c'')])"
    by simp
  have d2: "distinct (map fst [(''Cookie'', ''c''), (''Host'', ''h''), (''Accept'', ''a'')])"
    by simp
  have st: "set [(''Host'', ''h''), (''Accept'', ''a''), (''Cookie'', ''c'')]
      = set [(''Cookie'', ''c''), (''Host'', ''h''), (''Accept'', ''a'')]"
    by auto
  from C3_header_order_independent [OF d1 d2 st, of HttpRequest_new "HttpResponse_ctor status_ok True"]
    d1 d2 st out
  show ?thesis by blast
qed

text \<open>
  Claim C4, as amended. For every key \<open>k\<close> with no colon and no CR LF inside, every value
  \<open>v1\<close> and every value \<open>v2\<close> with no CR LF inside, on a request or response whose url,
  query, header fields and header values contain no CR LF and whose header fields contain
  no colon: after \<open>addHeadValue(k, v1)\<close> and then \<open>addHeadValue(k, v2)\<close> the output of
  \<open>getResult()\<close> has exactly one header line that reads \<open>k: \<close> and a value, and it is
  \<open>k: v2\<close>.
\<close>

theorem C4_addHeadValue_overwrites:
  assumes "HttpRequest_well_formed s" and "entries_ok (rHeadField r)"
    and "field_ok k" and "\<not> has_CRLF v2"
  shows "filter (line_is_for k)
           (header_lines_of
              (HttpRequest_getResult
                 (HttpRequest_addHeadValue k v2 (HttpRequest_addHeadValue k v1 s))))
         = [k @ '': '' @ v2]
       \<and> filter (line_is_for k)
           (header_lines_of
              (HttpResponse_getResult
                 (HttpResponse_addHeadValue k v2 (HttpResponse_addHeadValue k v1 r))))
         = [k @ '': '' @ v2]"
proof
  let ?s = "HttpRequest_addHeadValue k v2 (HttpRequest_addHeadValue k v1 s)"
  let ?r = "HttpResponse_addHeadValue k v2 (HttpResponse_addHeadValue k v1 r)"
  have ms: "mHeadField ?s = map_assign k v2 (mHeadField s)"
    by (simp add: HttpRequest_addHeadValue_def map_assign_twice)
  have us: "mUrl ?s = mUrl s" and qs: "mQuery ?s = mQuery s"
    by (simp_all add: HttpRequest_addHeadValue_def)
  have mr: "rHeadField ?r = map_assign k v2 (rHeadField r)"
    by (simp add: HttpResponse_addHeadValue_def map_assign_twice)
  from assms(1) have oks: "entries_ok (mHeadField s)"
    and url: "\<not> has_CRLF (mUrl s)" and query: "\<not> has_CRLF (mQuery s)"
    by (simp_all add: HttpRequest_well_formed_def)
  from oks assms(3,4) have "entries_ok (map_assign k v2 (mHeadField s))"
    by (rule entries_ok_assign)
  then have "entries_no_CRLF (map_assign k v2 (mHeadField s))"
    by (rule entries_ok_no_CRLF)
  with url query have "HttpRequest_no_CRLF ?s"
    by (simp only: HttpRequest_no_CRLF_def ms us qs simp_thms)
  then have hs: "header_lines_of (HttpRequest_getResult ?s)
      = map header_text (entries (mHeadField ?s))"
    by (rule HttpRequest_message(1))
  from oks assms(3,4)
  have ls: "filter (line_is_for k) (map header_text (entries (map_assign k v2 (mHeadField s))))
      = [k @ '': '' @ v2]"
    by (rule lines_for_assign)
  show "filter (line_is_for k) (header_lines_of (HttpRequest_getResult ?s))
      = [k @ '': '' @ v2]"
    by (simp only: hs ms ls)
  from assms(2,3,4) have "entries_ok (map_assign k v2 (rHeadField r))"
    by (rule entries_ok_assign)
  then have "entries_no_CRLF (rHeadField ?r)"
    unfolding mr by (rule entries_ok_no_CRLF)
  then have hr: "header_lines_of (HttpResponse_getResult ?r)
      = map header_text (entries (rHeadField ?r))"
    by (rule HttpResponse_message(1))
  from assms(2,3,4)
  have lr: "filter (line_is_for k) (map header_text (entries (map_assign k v2 (rHeadField r))))
      = [k @ '': '' @ v2]"
    by (rule lines_for_assign)
  show "filter (line_is_for k) (header_lines_of (HttpResponse_getResult ?r))
      = [k @ '': '' @ v2]"
    by (simp only: hr mr lr)
qed

theorem C4_addHeadValue_overwrites_witness:
  "HttpRequest_well_formed (HttpRequest_addHeadValue ''Host'' ''h'' HttpRequest_new)
   \<and> entries_ok (rHeadField (HttpResponse_ctor status_ok True))
   \<and> field_ok ''Accept'' \<and> \<not> has_CRLF ''b''
   \<and> filter (line_is_for ''Accept'')
        (header_lines_of
           (HttpRequest_getResult
              (HttpRequest_addHeadValue ''Accept'' ''b''
                 (HttpRequest_addHeadValue ''Accept'' ''a''
                    (HttpRequest_addHeadValue ''Host'' ''h'' HttpRequest_new)))))
       = [''Accept'' @ '': '' @ ''b'']
   \<and> filter (line_is_for ''Accept'')
        (header_lines_of
           (HttpResponse_getResult
              (HttpResponse_addHeadValue ''Accept'' ''b''
                 (HttpResponse_addHeadValue ''Accept'' ''a''
                    (HttpResponse_ctor status_ok True)))))
       = [''Accept'' @ '': '' @ ''b'']"
proof -
  have h1: "HttpRequest_well_formed (HttpRequest_addHeadValue ''Host'' ''h'' HttpRequest_new)"
    by code_simp
  have h2: "entries_ok (rHeadField (HttpResponse_ctor status_ok True))"
    by code_simp
  have h3: "field_ok ''Accept''" by (simp add: field_ok_def)
  have h4: "\<not> has_CRLF ''b''" by simp
  from C4_addHeadValue_overwrites [OF h1 h2 h3 h4, of "''a''"] h1 h2 h3 h4
  show ?thesis by blast
qed

text \<open>
  Claim C4 as stated, for every key and values, fails on the output bytes. After
  \<open>addHeadValue("X", "a")\<close> and \<open>addHeadValue("X", "b\r\nX: c")\<close> on a fresh request the
  output has the two header lines \<open>X: b\<close> and \<open>X: c\<close>; on a request that already holds
  the field \<open>X: y\<close>, \<open>addHeadValue("X", "a")\<close> and \<open>addHeadValue("X", "b")\<close> give the two
  lines \<open>X: b\<close> and \<open>X: y: z\<close> that read \<open>X: \<close> and a value.
\<close>

theorem C4_injected_lines:
  "header_lines_of
      (HttpRequest_getResult
         (HttpRequest_addHeadValue ''X'' (''b'' @ CRLF @ ''X: c'')
            (HttpRequest_addHeadValue ''X'' ''a'' HttpRequest_new)))
     = [''X: b'', ''X: c'']
   \<and> filter (line_is_for ''X'')
        (header_lines_of
           (HttpRequest_getResult
              (HttpRequest_addHeadValue ''X'' (''b'' @ CRLF @ ''X: c'')
                 (HttpRequest_addHeadValue ''X'' ''a'' HttpRequest_new))))
     = [''X: b'', ''X: c'']
   \<and> filter (line_is_for ''X'')
        (header_lines_of
           (HttpRequest_getResult
              (HttpRequest_addHeadValue ''X'' ''b''
                 (HttpRequest_addHeadValue ''X'' ''a''
                    (HttpRequest_addHeadValue ''X: y'' ''z'' HttpRequest_new)))))
     = [''X: b'', ''X: y: z'']"
  by code_simp

text \<open>
  Claim C5. A freshly constructed HttpRequest on which no setter has been called serializes
  to exactly \<open>GET  HTTP/1.1\<close> CRLF CRLF: the method token GET, a space, the empty url, a
  space, the suffix, no header line, an empty body. The construction succeeds whatever the
  uninitialised \<open>mMethod\<close> held.
\<close>

theorem C5_default_request:
  "HttpRequest_ctor_from m0 = Inr HttpRequest_new
   \<and> HttpRequest_getResult HttpRequest_new
       = ''GET  HTTP/1.1'' @ [CHR 0x0D, CHR 0x0A, CHR 0x0D, CHR 0x0A]"
proof
  show "HttpRequest_ctor_from m0 = Inr HttpRequest_new"
    by (simp add: HttpRequest_ctor_from_def HttpRequest_setMethod_def setMethod_assertion_def
        HttpRequest_new_def)
  show "HttpRequest_getResult HttpRequest_new
       = ''GET  HTTP/1.1'' @ [CHR 0x0D, CHR 0x0A, CHR 0x0D, CHR 0x0A]"
    by (simp add: HttpRequest_getResult_def HttpRequest_new_def HttpMethodString_def
        map_empty.rep_eq CRLF_def)
qed

text \<open>
  Claim C6. An HttpResponse constructed with the default arguments (status ok, keep-alive)
  and not touched further serializes to exactly \<open>HTTP/1.1 200 OK\<close> CRLF
  \<open>Connection: Keep-Alive\<close> CRLF CRLF; constructed with keep-alive false, its Connection
  header has the value \<open>Close\<close>.
\<close>

theorem C6_default_response:
  "HttpResponse_getResult (HttpResponse_ctor status_ok True)
     = ''HTTP/1.1 200 OK'' @ [CHR 0x0D, CHR 0x0A]
       @ ''Connection: Keep-Alive'' @ [CHR 0x0D, CHR 0x0A, CHR 0x0D, CHR 0x0A]
   \<and> HttpResponse_getResult (HttpResponse_ctor status_ok False)
     = ''HTTP/1.1 200 OK'' @ [CHR 0x0D, CHR 0x0A]
       @ ''Connection: Close'' @ [CHR 0x0D, CHR 0x0A, CHR 0x0D, CHR 0x0A]"
  by code_simp

text \<open>
  Claim C7. For every status value that has no case in \<open>toStatusString\<close>, the status
  line is to hold the numeric code verbatim in decimal, a space and the placeholder
  \<open><unknown-status>\<close>. The status is an unsigned 32-bit value and \<open>getResult\<close> prints it
  after \<^verbatim>\<open>static_cast<int>\<close>: the value 4294967295 has no case, its decimal form is
  \<open>4294967295\<close>, and the status line reads \<open>HTTP/1.1 -1 <unknown-status>\<close>. Below
  \<open>2 ^ 31\<close> the code is printed verbatim (lemma \<open>unknown_status_line_below_int_max\<close>).
\<close>

theorem C7_status_above_int_max:
  "map_of status_cases (4294967295 :: status) = None
   \<and> to_string_nat (unat (4294967295 :: status)) = ''4294967295''
   \<and> HttpResponse_getResult (HttpResponse_ctor 4294967295 True)
     = ''HTTP/1.1 -1 <unknown-status>'' @ [CHR 0x0D, CHR 0x0A]
       @ ''Connection: Keep-Alive'' @ [CHR 0x0D, CHR 0x0A, CHR 0x0D, CHR 0x0A]"
proof (intro conjI)
  show "map_of status_cases (4294967295 :: status) = None"
    by (simp add: status_cases_def)
  show "to_string_nat (unat (4294967295 :: status)) = ''4294967295''"
    by (simp add: to_string_nat.simps digit_char_def)
  show "HttpResponse_getResult (HttpResponse_ctor 4294967295 True)
     = ''HTTP/1.1 -1 <unknown-status>'' @ [CHR 0x0D, CHR 0x0A]
       @ ''Connection: Keep-Alive'' @ [CHR 0x0D, CHR 0x0A, CHR 0x0D, CHR 0x0A]"
    by code_simp
qed

text \<open>
  Claim C8, as amended. For every sequence of calls \<open>add(k1,v1), ..., add(kn,vn)\<close> on a
  fresh HttpQueryParameter whose arguments are strings of their own (none is the reference
  that \<open>getResult()\<close> of the same object returns), with arbitrary (also empty) keys and
  values, \<open>getResult()\<close> is exactly \<open>k1=v1&k2=v2&...&kn=vn\<close>: every pair verbatim, joined
  in call order by a single \<open>&\<close>, none before the first pair; \<open>add("a","1")\<close> then
  \<open>add("b","2")\<close> gives \<open>a=1&b=2\<close>.
\<close>

theorem C8_query_parameter_result:
  "HttpQueryParameter_getResult
       (HttpQueryParameter_calls (map by_value kvs) HttpQueryParameter_ctor)
     = spec_query_string kvs
   \<and> argument_values (map by_value kvs) HttpQueryParameter_ctor = kvs
   \<and> HttpQueryParameter_getResult
       (HttpQueryParameter_calls
          [(Other_string ''a'', Other_string ''1''), (Other_string ''b'', Other_string ''2'')]
          HttpQueryParameter_ctor) = ''a=1&b=2''"
proof (intro conjI)
  show "HttpQueryParameter_getResult
       (HttpQueryParameter_calls (map by_value kvs) HttpQueryParameter_ctor)
     = spec_query_string kvs"
    by (simp add: HttpQueryParameter_getResult_def HttpQueryParameter_getResult_call_def
        calls_by_value_mParameter)
  show "argument_values (map by_value kvs) HttpQueryParameter_ctor = kvs"
    by (rule argument_values_by_value)
  show "HttpQueryParameter_getResult
       (HttpQueryParameter_calls
          [(Other_string ''a'', Other_string ''1''), (Other_string ''b'', Other_string ''2'')]
          HttpQueryParameter_ctor) = ''a=1&b=2''"
    by (simp add: HttpQueryParameter_getResult_def HttpQueryParameter_getResult_call_def
        HttpQueryParameter_calls_def HttpQueryParameter_add_def HttpQueryParameter_ctor_def)
qed

text \<open>
  Claim C8 as stated, for every sequence of calls, fails when an argument is bound to the
  accumulator itself: in \<open>q.add("a","1"); q.add(q.getResult(),"x")\<close> the second key holds
  \<open>a=1\<close> when the call is made, so the claim gives \<open>a=1&a=1=x\<close>; \<open>add\<close> appends \<open>&\<close>
  before it reads the key, and the result is \<open>a=1&a=1&=x\<close>.
\<close>

theorem C8_key_aliasing_the_accumulator:
  "argument_values [(Other_string ''a'', Other_string ''1''), (Own_mParameter, Other_string ''x'')]
       HttpQueryParameter_ctor
     = [(''a'', ''1''), (''a=1'', ''x'')]
   \<and> spec_query_string [(''a'', ''1''), (''a=1'', ''x'')] = ''a=1&a=1=x''
   \<and> HttpQueryParameter_getResult
       (HttpQueryParameter_calls
          [(Other_string ''a'', Other_string ''1''), (Own_mParameter, Other_string ''x'')]
          HttpQueryParameter_ctor) = ''a=1&a=1&=x''
   \<and> HttpQueryParameter_getResult
       (HttpQueryParameter_calls
          [(Other_string ''a'', Other_string ''1''), (Own_mParameter, Other_string ''x'')]
          HttpQueryParameter_ctor)
     \<noteq> spec_query_string
         (argument_values
            [(Other_string ''a'', Other_string ''1''), (Own_mParameter, Other_string ''x'')]
            HttpQueryParameter_ctor)"
  by (simp add: HttpQueryParameter_getResult_def HttpQueryParameter_getResult_call_def
      HttpQueryParameter_calls_def HttpQueryParameter_add_def HttpQueryParameter_ctor_def)

text \<open>
  Claim C9. For every state of an HttpRequest, an HttpResponse or an HttpQueryParameter,
  two calls of \<open>getResult()\<close> with no setter call in between return identical strings, and
  the object after them is the object before them: the statements of the bodies write the
  local \<open>ret\<close> only (for the query parameter the body returns the reference to the
  accumulator), and the string is the one the serialisation gives for the object.
\<close>

theorem C9_getResult_repeatable:
  "twice HttpRequest_getResult_call s = (HttpRequest_getResult s, HttpRequest_getResult s, s)
   \<and> twice HttpResponse_getResult_call r
       = (HttpResponse_getResult r, HttpResponse_getResult r, r)
   \<and> (case twice HttpQueryParameter_getResult_call q of
         (r1, r2, q') \<Rightarrow>
           deref r1 q' = HttpQueryParameter_getResult q
           \<and> deref r2 q' = HttpQueryParameter_getResult q \<and> q' = q)"
  by (simp add: twice_def HttpRequest_getResult_call_eq HttpResponse_getResult_call_eq
      HttpQueryParameter_getResult_call_def HttpQueryParameter_getResult_def)

text \<open>
  Claim C10, as amended. Every HttpResponse header map contains the key \<open>Connection\<close> from
  construction onward, whatever the setter calls, since no operation removes a header. For
  every status and keep-alive flag and every sequence of setter calls whose header fields
  contain no colon and no CR LF and whose header values and content types contain no CR LF,
  the output of \<open>getResult()\<close> has exactly one header line of the form
  \<open>Connection: <value>\<close>.
\<close>

theorem C10_Connection_header_present:
  "(\<exists>w. filter (\<lambda>e. fst e = ''Connection'')
          (entries (rHeadField (foldl HttpResponse_do (HttpResponse_ctor st ka) cs)))
        = [(''Connection'', w)])
   \<and> (list_all HttpResponse_call_ok cs \<longrightarrow>
        (\<exists>v. filter (line_is_for ''Connection'')
           (header_lines_of
              (HttpResponse_getResult (foldl HttpResponse_do (HttpResponse_ctor st ka) cs)))
         = [''Connection: '' @ v]))"
proof (intro conjI impI)
  show "\<exists>w. filter (\<lambda>e. fst e = ''Connection'')
          (entries (rHeadField (foldl HttpResponse_do (HttpResponse_ctor st ka) cs)))
        = [(''Connection'', w)]"
    by (rule HttpResponse_calls_Connection_key)
next
  assume cs: "list_all HttpResponse_call_ok cs"
  let ?r = "foldl HttpResponse_do (HttpResponse_ctor st ka) cs"
  from cs have ok: "entries_ok (rHeadField ?r)"
    using HttpResponse_calls_invariant by blast
  obtain v
    where v: "filter (\<lambda>e. fst e = ''Connection'') (entries (rHeadField ?r)) = [(''Connection'', v)]"
    using HttpResponse_calls_Connection_key by blast
  from ok have "entries_no_CRLF (rHeadField ?r)" by (rule entries_ok_no_CRLF)
  then have h: "header_lines_of (HttpResponse_getResult ?r)
      = map header_text (entries (rHeadField ?r))"
    by (rule HttpResponse_message(1))
  have "CHR '':'' \<notin> set ''Connection''" by simp
  with ok have l: "filter (line_is_for ''Connection'') (map header_text (entries (rHeadField ?r)))
      = map header_text (filter (\<lambda>e. fst e = ''Connection'') (entries (rHeadField ?r)))"
    by (rule lines_for_entries_ok)
  have "filter (line_is_for ''Connection'') (header_lines_of (HttpResponse_getResult ?r))
      = [''Connection: '' @ v]"
    by (simp only: h l v) (simp add: header_text_def)
  then show "\<exists>v. filter (line_is_for ''Connection'')
           (header_lines_of (HttpResponse_getResult ?r)) = [''Connection: '' @ v]" ..
qed

theorem C10_Connection_header_present_witness:
  "list_all HttpResponse_call_ok
      [Resp_setContentType ''text/html'', Resp_addHeadValue ''Connection'' ''Upgrade'',
       Resp_setBody ''hi'']
   \<and> (\<exists>v. filter (line_is_for ''Connection'')
           (header_lines_of
              (HttpResponse_getResult
                 (foldl HttpResponse_do (HttpResponse_ctor status_ok True)
                    [Resp_setContentType ''text/html'',
                     Resp_addHeadValue ''Connection'' ''Upgrade'', Resp_setBody ''hi''])))
         = [''Connection: '' @ v])
   \<and> header_lines_of
        (HttpResponse_getResult
           (foldl HttpResponse_do (HttpResponse_ctor status_ok True)
              [Resp_setContentType ''text/html'',
               Resp_addHeadValue ''Connection'' ''Upgrade'', Resp_setBody ''hi'']))
       = [''Connection: Upgrade'', ''Content-Length: 2'', ''Content-Type: text/html'']"
proof -
  have h: "list_all HttpResponse_call_ok
      [Resp_setContentType ''text/html'', Resp_addHeadValue ''Connection'' ''Upgrade'',
       Resp_setBody ''hi'']"
    by (simp add: field_ok_def)
  have out: "header_lines_of
        (HttpResponse_getResult
           (foldl HttpResponse_do (HttpResponse_ctor status_ok True)
              [Resp_setContentType ''text/html'',
               Resp_addHeadValue ''Connection'' ''Upgrade'', Resp_setBody ''hi'']))
       = [''Connection: Upgrade'', ''Content-Length: 2'', ''Content-Type: text/html'']"
    by code_simp
  from C10_Connection_header_present [of status_ok True
      "[Resp_setContentType ''text/html'', Resp_addHeadValue ''Connection'' ''Upgrade'',
        Resp_setBody ''hi'']"] h out
  show ?thesis by blast
qed

text \<open>
  Claim C10 as stated, for any sequence of setter calls, fails on the output bytes: header
  fields and values are copied into the output as they are. After
  \<open>addHeadValue("Connection: x", "y")\<close> on a response constructed with the default
  arguments the output has the header lines \<open>Connection: Keep-Alive\<close> and
  \<open>Connection: x: y\<close>; after \<open>addHeadValue("X", "a\r\nConnection: z")\<close> it has the lines
  \<open>Connection: Keep-Alive\<close> and \<open>Connection: z\<close>.
\<close>

theorem C10_two_Connection_lines:
  "HttpResponse_getResult
      (foldl HttpResponse_do (HttpResponse_ctor status_ok True)
         [Resp_addHeadValue ''Connection: x'' ''y''])
     = ''HTTP/1.1 200 OK'' @ CRLF @ ''Connection: Keep-Alive'' @ CRLF
         @ ''Connection: x: y'' @ CRLF @ CRLF
   \<and> filter (line_is_for ''Connection'')
        (header_lines_of
           (HttpResponse_getResult
              (foldl HttpResponse_do (HttpResponse_ctor status_ok True)
                 [Resp_addHeadValue ''Connection: x'' ''y''])))
     = [''Connection: Keep-Alive'', ''Connection: x: y'']
   \<and> filter (line_is_for ''Connection'')
        (header_lines_of
           (HttpResponse_getResult
              (foldl HttpResponse_do (HttpResponse_ctor status_ok True)
                 [Resp_addHeadValue ''X'' (''a'' @ CRLF @ ''Connection: z'')])))
     = [''Connection: Keep-Alive'', ''Connection: z'']"
  by code_simp

end
